theory Spec2Isabelle
  imports Complex_Main "HOL-Library.Sublist"
begin

section \<open>Text primitives of the Python runtime\<close>

text \<open>
  A Python \<open>str\<close> is a sequence of code points. The model reads a \<^typ>\<open>char\<close> as one code
  point of the Latin-1 range \<open>0..255\<close>, so \<^const>\<open>length\<close> counts what Python's \<open>len\<close>
  counts; text with code points above 255 is outside the model. The classifications below are
  those of CPython on that range.
\<close>

definition is_space :: "char \<Rightarrow> bool" where
  \<comment> \<open>\<open>str.isspace\<close> on one code point; the set \<open>str.strip()\<close> and \<open>str.split()\<close> use.\<close>
  "is_space c \<longleftrightarrow> (let n = (of_char c :: nat) in
     (9 \<le> n \<and> n \<le> 13) \<or> (28 \<le> n \<and> n \<le> 32) \<or> n = 133 \<or> n = 160)"

definition is_digit :: "char \<Rightarrow> bool" where
  \<comment> \<open>the regular expression class \<open>\d\<close> on the Latin-1 range\<close>
  "is_digit c \<longleftrightarrow> (let n = (of_char c :: nat) in 48 \<le> n \<and> n \<le> 57)"

definition is_upper :: "char \<Rightarrow> bool" where
  "is_upper c \<longleftrightarrow> (let n = (of_char c :: nat) in
     (65 \<le> n \<and> n \<le> 90) \<or> (192 \<le> n \<and> n \<le> 222 \<and> n \<noteq> 215))"

definition lower_char :: "char \<Rightarrow> char" where
  "lower_char c = (if is_upper c then char_of ((of_char c :: nat) + 32) else c)"

definition lower :: "string \<Rightarrow> string" where
  \<comment> \<open>\<open>str.lower()\<close>\<close>
  "lower s = map lower_char s"

definition strip :: "string \<Rightarrow> string" where
  \<comment> \<open>\<open>str.strip()\<close> without argument\<close>
  "strip s = rev (dropWhile is_space (rev (dropWhile is_space s)))"

definition strip_chars :: "string \<Rightarrow> string \<Rightarrow> string" where
  \<comment> \<open>\<open>s.strip(chars)\<close>\<close>
  "strip_chars chars s =
     rev (dropWhile (\<lambda>c. c \<in> set chars) (rev (dropWhile (\<lambda>c. c \<in> set chars) s)))"

fun split_acc :: "string \<Rightarrow> string \<Rightarrow> string list" where
  "split_acc w [] = (if w = [] then [] else [w])"
| "split_acc w (c # cs) =
     (if is_space c then (if w = [] then split_acc [] cs else w # split_acc [] cs)
      else split_acc (w @ [c]) cs)"

definition split :: "string \<Rightarrow> string list" where
  \<comment> \<open>\<open>str.split()\<close> without argument: the maximal runs of non-whitespace\<close>
  "split s = split_acc [] s"

fun findall_acc :: "string \<Rightarrow> string \<Rightarrow> string list" where
  "findall_acc w [] = (if w = [] then [] else [w])"
| "findall_acc w (c # cs) =
     (if is_digit c then findall_acc (w @ [c]) cs
      else (if w = [] then findall_acc [] cs else w # findall_acc [] cs))"

definition findall_digits :: "string \<Rightarrow> string list" where
  \<comment> \<open>\<open>re.findall(r'\d+', s)\<close>: the maximal runs of digits, left to right\<close>
  "findall_digits s = findall_acc [] s"

definition digit_val :: "char \<Rightarrow> int" where
  "digit_val c = int (of_char c) - 48"

definition int_of_digits :: "string \<Rightarrow> int" where
  \<comment> \<open>the value of a run of decimal digits\<close>
  "int_of_digits s = foldl (\<lambda>acc c. 10 * acc + digit_val c) 0 s"

definition max_str_digits :: nat where
  \<comment> \<open>\<open>sys.int_info.default_max_str_digits\<close>, the interpreter's default limit on the
      length of a decimal numeral\<close>
  "max_str_digits = 4300"

definition py_int :: "string \<Rightarrow> int option" where
  \<comment> \<open>\<open>int(s)\<close> on a run of decimal digits: a run longer than the limit raises
      \<open>ValueError\<close>, here \<^const>\<open>None\<close>\<close>
  "py_int s = (if length s > max_str_digits then None else Some (int_of_digits s))"

definition punctuation :: string where
  \<comment> \<open>the argument of \<open>word.strip('.,!?;:"()[]{}')\<close>\<close>
  "punctuation = [CHR ''.'', CHR '','', CHR ''!'', CHR ''?'', CHR '';'', CHR '':'', CHR 0x22,
                  CHR ''('', CHR '')'', CHR ''['', CHR '']'', CHR ''{'', CHR ''}'']"

type_synonym ratio_fn = "string \<Rightarrow> string \<Rightarrow> rat"

section \<open>nlp_utils.parse_guests\<close>

definition single_indicators :: "string list" where
  "single_indicators = [''me'', ''myself'', ''just me'', ''one person'', ''solo'', ''alone'']"

definition word_to_num :: "(string \<times> int) list" where
  \<comment> \<open>the dictionary in insertion order, which is its iteration order\<close>
  "word_to_num =
     [(''one'', 1), (''two'', 2), (''three'', 3), (''four'', 4), (''five'', 5),
      (''six'', 6), (''seven'', 7), (''eight'', 8), (''nine'', 9), (''ten'', 10),
      (''a'', 1), (''an'', 1), (''single'', 1), (''couple'', 2), (''pair'', 2)]"

fun scan_numbers :: "string list \<Rightarrow> int option" where
  \<comment> \<open>\<open>for num_str in numbers: try: num = int(num_str); if 1 <= num <= 10: return num;
      except ValueError: continue\<close>\<close>
  "scan_numbers [] = None"
| "scan_numbers (num_str # rest) =
     (case py_int num_str of
        None \<Rightarrow> scan_numbers rest
      | Some num \<Rightarrow> if 1 \<le> num \<and> num \<le> 10 then Some num else scan_numbers rest)"

fun scan_words :: "string list \<Rightarrow> int option" where
  \<comment> \<open>\<open>for word in words: clean_word = ...; if clean_word in word_to_num: return ...\<close>\<close>
  "scan_words [] = None"
| "scan_words (word # rest) =
     (let clean_word = strip_chars punctuation word
      in case map_of word_to_num clean_word of
           Some v \<Rightarrow> Some v
         | None \<Rightarrow> scan_words rest)"

fun fuzzy_table :: "ratio_fn \<Rightarrow> string \<Rightarrow> (string \<times> int) list \<Rightarrow> int option" where
  \<comment> \<open>\<open>for num_word, num_val in word_to_num.items(): if fuzz.ratio(...) >= 80: return\<close>\<close>
  "fuzzy_table ratio clean_word [] = None"
| "fuzzy_table ratio clean_word ((num_word, num_val) # rest) =
     (if ratio clean_word num_word \<ge> 80 then Some num_val
      else fuzzy_table ratio clean_word rest)"

fun scan_fuzzy :: "ratio_fn \<Rightarrow> string list \<Rightarrow> int option" where
  "scan_fuzzy ratio [] = None"
| "scan_fuzzy ratio (word # rest) =
     (case fuzzy_table ratio (strip_chars punctuation word) word_to_num of
        Some v \<Rightarrow> Some v
      | None \<Rightarrow> scan_fuzzy ratio rest)"

definition parse_guests :: "ratio_fn \<Rightarrow> string \<Rightarrow> int option" where
  \<comment> \<open>\<open>ratio\<close> stands for \<open>rapidfuzz.fuzz.ratio\<close>\<close>
  "parse_guests ratio text =
     (if text = [] \<or> strip text = [] then None
      else let text_lower = lower (strip text)
      in if list_ex (\<lambda>indicator. sublist indicator text_lower) single_indicators then Some 1
      else case scan_numbers (findall_digits text) of
        Some num \<Rightarrow> Some num
      | None \<Rightarrow>
          (let words = split text_lower
           in case scan_words words of
                Some v \<Rightarrow> Some v
              | None \<Rightarrow> scan_fuzzy ratio words))"

section \<open>nlp_utils.is_yes\<close>

definition yes_words :: "string list" where
  "yes_words =
     [''yes'', ''y'', ''yeah'', ''yep'', ''yup'', ''sure'', ''ok'', ''okay'', ''alright'',
      ''definitely'', ''absolutely'', ''certainly'', ''of course'', ''please'',
      ''correct'', ''right'', ''true'', ''confirm'', ''agreed'']"

definition no_words :: "string list" where
  "no_words =
     [''no'', ''n'', ''nope'', ''nah'', ''not'', ''never'', ''none'', ''negative'',
      ''false'', ''incorrect'', ''wrong'', ''disagree'', ''refuse'', ''decline'']"

definition fuzzy_any :: "ratio_fn \<Rightarrow> rat \<Rightarrow> string \<Rightarrow> string list \<Rightarrow> bool" where
  \<comment> \<open>\<open>any(fuzz.ratio(s, w) >= threshold for w in ws)\<close>, also the shape of the two
      \<open>for word in ...: if fuzz.ratio(text_lower, word) >= 80: return ...\<close> loops\<close>
  "fuzzy_any ratio threshold s ws = list_ex (\<lambda>w. ratio s w \<ge> threshold) ws"

definition count_matching :: "ratio_fn \<Rightarrow> string list \<Rightarrow> string list \<Rightarrow> nat" where
  \<comment> \<open>\<open>sum(1 for word in words if any(fuzz.ratio(word, w) >= 70 for w in ws))\<close>\<close>
  "count_matching ratio ws words = length (filter (\<lambda>word. fuzzy_any ratio 70 word ws) words)"

definition is_yes :: "ratio_fn \<Rightarrow> string \<Rightarrow> bool option" where
  "is_yes ratio text =
     (if text = [] \<or> strip text = [] then None
      else let text_lower = lower (strip text)
      in if text_lower \<in> set yes_words then Some True
      else if text_lower \<in> set no_words then Some False
      else if fuzzy_any ratio 80 text_lower yes_words then Some True
      else if fuzzy_any ratio 80 text_lower no_words then Some False
      else let words = split text_lower;
               yes_count = count_matching ratio yes_words words;
               no_count = count_matching ratio no_words words
      in if yes_count > no_count then Some True
         else if no_count > yes_count then Some False
         else None)"

section \<open>The similarity score of rapidfuzz\<close>

text \<open>
  \<open>fuzz.ratio\<close> belongs to the rapidfuzz library. The extractors take it as a parameter, so
  what is proved about them holds for every scoring function. Its documented definition, the
  normalised Indel similarity scaled to \<open>0..100\<close>, is given here in exact arithmetic for the
  concrete scenarios; the library computes the same quotient in double precision.
\<close>

fun lcs :: "string \<Rightarrow> string \<Rightarrow> nat" where
  "lcs [] ys = 0"
| "lcs (x # xs) [] = 0"
| "lcs (x # xs) (y # ys) =
     (if x = y then Suc (lcs xs ys) else max (lcs xs (y # ys)) (lcs (x # xs) ys))"

definition indel_distance :: "string \<Rightarrow> string \<Rightarrow> nat" where
  "indel_distance s1 s2 = length s1 + length s2 - 2 * lcs s1 s2"

definition indel_ratio :: ratio_fn where
  "indel_ratio s1 s2 =
     (let maximum = length s1 + length s2;
          norm_dist = (if maximum = 0 then 0 else of_nat (indel_distance s1 s2) / of_nat maximum)
      in (1 - norm_dist) * 100)"

section \<open>Title case\<close>

definition is_lower :: "char \<Rightarrow> bool" where
  "is_lower c \<longleftrightarrow> (let n = (of_char c :: nat) in
     (97 \<le> n \<and> n \<le> 122) \<or> n = 170 \<or> n = 181 \<or> n = 186 \<or> (223 \<le> n \<and> n \<noteq> 247))"

definition is_cased :: "char \<Rightarrow> bool" where
  "is_cased c \<longleftrightarrow> is_upper c \<or> is_lower c"

definition title_char :: "char \<Rightarrow> string option" where
  \<comment> \<open>The full title-case mapping of one code point: the capital letter, \<open>Ss\<close> for
      \<open>0xDF\<close>, the code point itself where there is nothing to change. For \<open>0xB5\<close> and
      \<open>0xFF\<close> the result (U+039C, U+0178) lies outside Latin-1: \<^const>\<open>None\<close>.\<close>
  "title_char c = (let n = (of_char c :: nat) in
     if (97 \<le> n \<and> n \<le> 122) \<or> (224 \<le> n \<and> n \<le> 254 \<and> n \<noteq> 247) then Some [char_of (n - 32)]
     else if n = 223 then Some ''Ss''
     else if n = 181 \<or> n = 255 then None
     else Some [c])"

fun title_acc :: "bool \<Rightarrow> string \<Rightarrow> string option" where
  \<comment> \<open>the flag is CPython's \<open>previous_is_cased\<close>\<close>
  "title_acc previous_is_cased [] = Some []"
| "title_acc previous_is_cased (c # cs) =
     (if is_cased c
      then (case (if previous_is_cased then Some [lower_char c] else title_char c) of
              None \<Rightarrow> None
            | Some t \<Rightarrow> map_option ((@) t) (title_acc True cs))
      else map_option ((#) c) (title_acc False cs))"

definition title :: "string \<Rightarrow> string option" where
  \<comment> \<open>\<open>str.title()\<close> wherever its result stays within Latin-1, \<^const>\<open>None\<close> where it does
      not\<close>
  "title s = title_acc False s"

definition is_str_title :: "(string \<Rightarrow> string) \<Rightarrow> bool" where
  \<comment> \<open>a function that is \<open>str.title\<close> wherever the result stays within Latin-1\<close>
  "is_str_title f \<longleftrightarrow> (\<forall>x t. title x = Some t \<longrightarrow> f x = t)"

section \<open>nlp_utils.validate_date_order\<close>

text \<open>
  \<open>datetime.strptime(s, '%Y-%m-%d')\<close> compiles the format to the regular expression
  \<^verbatim>\<open>(?P<Y>\d\d\d\d)-(?P<m>1[0-2]|0[1-9]|[1-9])-(?P<d>3[0-1]|[1-2]\d|0[1-9]|[1-9]| [1-9])\<close>,
  matches it at the start of the string, rejects a string with text left over, and builds a
  date from the three groups; every failure is a \<open>ValueError\<close>, here \<^const>\<open>None\<close>.
\<close>

datatype date = Date (year: int) (month: int) (day: int)

definition in_range :: "char \<Rightarrow> char \<Rightarrow> char \<Rightarrow> bool" where
  \<comment> \<open>the character class \<open>[lo-hi]\<close>\<close>
  "in_range lo hi c \<longleftrightarrow> (of_char lo :: nat) \<le> of_char c \<and> (of_char c :: nat) \<le> of_char hi"

fun match_seq :: "(char \<Rightarrow> bool) list \<Rightarrow> string \<Rightarrow> (string \<times> string) option" where
  \<comment> \<open>a sequence of character classes against a prefix: the matched text and the rest\<close>
  "match_seq [] s = Some ([], s)"
| "match_seq (p # ps) [] = None"
| "match_seq (p # ps) (c # cs) =
     (if p c then map_option (\<lambda>(m, r). (c # m, r)) (match_seq ps cs) else None)"

definition match_alts :: "(char \<Rightarrow> bool) list list \<Rightarrow> string \<Rightarrow> (string \<times> string) list" where
  \<comment> \<open>an alternation: the matches of its branches, in the order a backtracking matcher
      tries them\<close>
  "match_alts alts s = List.map_filter (\<lambda>alt. match_seq alt s) alts"

definition year_re :: "(char \<Rightarrow> bool) list" where
  "year_re = [is_digit, is_digit, is_digit, is_digit]"

definition month_re :: "(char \<Rightarrow> bool) list list" where
  "month_re = [[(=) CHR ''1'', in_range CHR ''0'' CHR ''2''],
               [(=) CHR ''0'', in_range CHR ''1'' CHR ''9''],
               [in_range CHR ''1'' CHR ''9'']]"

definition day_re :: "(char \<Rightarrow> bool) list list" where
  "day_re = [[(=) CHR ''3'', in_range CHR ''0'' CHR ''1''],
             [in_range CHR ''1'' CHR ''2'', is_digit],
             [(=) CHR ''0'', in_range CHR ''1'' CHR ''9''],
             [in_range CHR ''1'' CHR ''9''],
             [(=) CHR '' '', in_range CHR ''1'' CHR ''9'']]"

definition match_ymd :: "string \<Rightarrow> (string \<times> string \<times> string \<times> string) option" where
  \<comment> \<open>\<open>format_regex.match(data_string)\<close>: the groups \<open>Y\<close>, \<open>m\<close>, \<open>d\<close> of the first
      successful path and the unmatched rest\<close>
  "match_ymd s =
     (case match_seq (year_re @ [(=) CHR ''-'']) s of
        None \<Rightarrow> None
      | Some (y, r1) \<Rightarrow>
          (case concat (map (\<lambda>(m, r2).
                  case match_seq [(=) CHR ''-''] r2 of
                    None \<Rightarrow> []
                  | Some (_, r3) \<Rightarrow> map (\<lambda>(d, r4). (take 4 y, m, d, r4)) (match_alts day_re r3))
                (match_alts month_re r1)) of
             [] \<Rightarrow> None
           | found # _ \<Rightarrow> Some found))"

definition is_leap :: "int \<Rightarrow> bool" where
  "is_leap y \<longleftrightarrow> y mod 4 = 0 \<and> (y mod 100 \<noteq> 0 \<or> y mod 400 = 0)"

definition days_in_month :: "int \<Rightarrow> int \<Rightarrow> int" where
  "days_in_month y m =
     (if m = 2 then (if is_leap y then 29 else 28)
      else if m = 4 \<or> m = 6 \<or> m = 9 \<or> m = 11 then 30 else 31)"

definition make_date :: "int \<Rightarrow> int \<Rightarrow> int \<Rightarrow> date option" where
  \<comment> \<open>the constructor \<open>date(year, month, day)\<close> with its range checks\<close>
  "make_date y m d =
     (if 1 \<le> y \<and> y \<le> 9999 \<and> 1 \<le> m \<and> m \<le> 12 \<and> 1 \<le> d \<and> d \<le> days_in_month y m
      then Some (Date y m d) else None)"

definition strptime_ymd :: "string \<Rightarrow> date option" where
  \<comment> \<open>\<open>datetime.strptime(s, '%Y-%m-%d').date()\<close>\<close>
  "strptime_ymd s =
     (case match_ymd s of
        None \<Rightarrow> None
      | Some (y, m, d, rest) \<Rightarrow>
          if rest \<noteq> [] then None
          else make_date (int_of_digits y) (int_of_digits m) (int_of_digits (filter is_digit d)))"

definition date_less :: "date \<Rightarrow> date \<Rightarrow> bool" where
  \<comment> \<open>\<open>date.__lt__\<close>: the triples (year, month, day) compared lexicographically\<close>
  "date_less a b \<longleftrightarrow>
     year a < year b \<or> (year a = year b \<and> (month a < month b \<or> (month a = month b \<and> day a < day b)))"

definition validate_date_order :: "string \<Rightarrow> string \<Rightarrow> bool" where
  "validate_date_order checkin_str checkout_str =
     (case strptime_ymd checkin_str of
        None \<Rightarrow> False
      | Some checkin \<Rightarrow>
          (case strptime_ymd checkout_str of
             None \<Rightarrow> False
           | Some checkout \<Rightarrow> date_less checkin checkout))"

text \<open>Chronological position: \<open>date.toordinal()\<close>, the day count from 0001-01-01.\<close>

definition days_before_year :: "int \<Rightarrow> int" where
  "days_before_year y = (let y1 = y - 1 in y1 * 365 + y1 div 4 - y1 div 100 + y1 div 400)"

definition days_before_month :: "int \<Rightarrow> int \<Rightarrow> int" where
  "days_before_month y m = sum_list (map (days_in_month y) [1..m - 1])"

definition toordinal :: "date \<Rightarrow> int" where
  "toordinal dt = days_before_year (year dt) + days_before_month (year dt) (month dt) + day dt"

section \<open>app: sessions, the booking sink and the dialogue step\<close>

datatype error = KeyError string | DatabaseError

record booking_data =
  name :: "string option"
  checkin_date :: "string option"
  checkout_date :: "string option"
  guests :: "int option"
  breakfast :: "bool option"
  payment_method :: "string option"

definition empty_data :: booking_data where
  \<comment> \<open>the dictionary \<open>{}\<close>\<close>
  "empty_data = \<lparr>name = None, checkin_date = None, checkout_date = None, guests = None,
                  breakfast = None, payment_method = None\<rparr>"

record session_state =
  step :: string
  data :: booking_data
  session_id :: "string option"
  created_at :: string

text \<open>The row \<open>SELECT * FROM bookings WHERE id = ?\<close> fetches, column by column.\<close>

record db_row =
  col_id :: int
  col_session_id :: string
  col_name :: string
  col_checkin :: string
  col_checkout :: string
  col_guests :: int
  col_breakfast :: int
  col_payment_method :: string
  col_created_at :: string

record booking_record =
  rec_id :: int
  rec_session_id :: string
  rec_name :: string
  rec_checkin :: string
  rec_checkout :: string
  rec_guests :: int
  rec_breakfast :: bool
  rec_payment_method :: string
  rec_created_at :: string

text \<open>
  What the program calls outside this repository: the extractors built on spaCy and on
  dateparser (which reads the clock), the scoring function of rapidfuzz, SQLite, and
  \<open>str.title\<close>, whose result can leave the Latin-1 range (\<^const>\<open>title\<close> is its definition
  wherever it does not). The dialogue step is verified for every behaviour of these.
\<close>

record env =
  extract_name :: "string \<Rightarrow> string option"
  parse_date :: "string \<Rightarrow> string option"
  fuzz_ratio :: ratio_fn
  str_title :: "string \<Rightarrow> string"
  db_connect :: "error option"
    \<comment> \<open>an exception of \<open>sqlite3.connect\<close> or \<open>conn.cursor()\<close>, if any\<close>
  db_insert :: "string \<times> string \<times> string \<times> string \<times> int \<times> bool \<times> string
                \<Rightarrow> error + db_row option"
    \<comment> \<open>INSERT, commit, SELECT by \<open>lastrowid\<close> and \<open>fetchone()\<close>: an exception, no row,
        or the stored row\<close>

definition save_booking_to_db :: "env \<Rightarrow> string \<Rightarrow> booking_data \<Rightarrow> error + booking_record option" where
  \<comment> \<open>\<^const>\<open>None\<close> is the empty dictionary of the last line\<close>
  "save_booking_to_db e sid booking_data =
     (case db_connect e of
        Some err \<Rightarrow> Inl err
      | None \<Rightarrow>
     (case name booking_data of
        None \<Rightarrow> Inl (KeyError ''name'')
      | Some n \<Rightarrow>
     (case checkin_date booking_data of
        None \<Rightarrow> Inl (KeyError ''checkin_date'')
      | Some ci \<Rightarrow>
     (case checkout_date booking_data of
        None \<Rightarrow> Inl (KeyError ''checkout_date'')
      | Some co \<Rightarrow>
     (case guests booking_data of
        None \<Rightarrow> Inl (KeyError ''guests'')
      | Some g \<Rightarrow>
     (case db_insert e (sid, n, ci, co, g,
               (case breakfast booking_data of None \<Rightarrow> False | Some b \<Rightarrow> b),
               (case payment_method booking_data of None \<Rightarrow> ''Not specified'' | Some p \<Rightarrow> p)) of
        Inl err \<Rightarrow> Inl err
      | Inr None \<Rightarrow> Inr None
      | Inr (Some r) \<Rightarrow>
          Inr (Some \<lparr>rec_id = col_id r, rec_session_id = col_session_id r,
                     rec_name = col_name r, rec_checkin = col_checkin r,
                     rec_checkout = col_checkout r, rec_guests = col_guests r,
                     rec_breakfast = (col_breakfast r \<noteq> 0),
                     rec_payment_method = col_payment_method r,
                     rec_created_at = col_created_at r\<rparr>)))))))"

definition new_session :: "string \<Rightarrow> session_state" where
  \<comment> \<open>the state \<open>get_or_create_session\<close> stores for a fresh identifier\<close>
  "new_session now = \<lparr>step = ''name'', data = empty_data, session_id = None, created_at = now\<rparr>"

record response =
  reply :: string
  complete :: bool
  booking :: "booking_record option"

definition say :: "string \<Rightarrow> response" where
  \<comment> \<open>\<open>{'reply': text, 'complete': False, 'booking': None}\<close>\<close>
  "say text = \<lparr>reply = text, complete = False, booking = None\<rparr>"

fun str_nat :: "nat \<Rightarrow> string" where
  "str_nat n = (if n < 10 then [char_of (48 + n)] else str_nat (n div 10) @ [char_of (48 + n mod 10)])"

declare str_nat.simps [simp del]

definition str_int :: "int \<Rightarrow> string" where
  \<comment> \<open>an integer inside an f-string\<close>
  "str_int i = (if i < 0 then CHR ''-'' # str_nat (nat (- i)) else str_nat (nat i))"

definition newline :: string where
  "newline = [CHR 0x0A]"

definition bullet :: string where
  \<comment> \<open>the list marker of the summary, as the bytes of the source file\<close>
  "bullet = [CHR 0xC3, CHR 0xA2, CHR 0xE2, CHR 0x82, CHR 0xAC, CHR 0xC2, CHR 0xA2]"

definition party :: string where
  \<comment> \<open>the glyph that opens the confirmation, as the bytes of the source file\<close>
  "party = [CHR 0xC3, CHR 0xB0, CHR 0xC5, CHR 0xB8, CHR 0xC5, CHR 0xBD, CHR 0xE2, CHR 0x80, CHR 0xB0]"

definition valid_methods :: "string list" where
  "valid_methods = [''credit card'', ''debit card'', ''cash'', ''paypal'']"

fun best_method :: "ratio_fn \<Rightarrow> string \<Rightarrow> string list \<Rightarrow> string option \<times> rat \<Rightarrow> string option \<times> rat" where
  \<comment> \<open>the loop over \<open>valid_methods\<close>; the pair is \<open>(best_match, best_score)\<close>\<close>
  "best_method ratio payment [] best = best"
| "best_method ratio payment (method # rest) (best_match, best_score) =
     (let score = ratio payment method
      in if score > best_score \<and> score > 60
         then best_method ratio payment rest (Some method, score)
         else best_method ratio payment rest (best_match, best_score))"

definition payment_value :: "ratio_fn \<Rightarrow> (string \<Rightarrow> string) \<Rightarrow> string \<Rightarrow> string" where
  \<comment> \<open>what the payment step stores under \<open>'payment_method'\<close>\<close>
  "payment_value ratio to_title user_message =
     (let payment = lower (strip user_message)
      in if payment \<in> set [''skip'', ''later'', ''none''] then ''Not specified''
         else case fst (best_method ratio payment valid_methods (None, 0)) of
                Some best_match \<Rightarrow>
                  if best_match \<noteq> [] then to_title best_match else to_title payment
              | None \<Rightarrow> to_title payment)"

definition summary :: "booking_data \<Rightarrow> error + string" where
  \<comment> \<open>the f-string of the payment step, subscripts evaluated in order, then \<open>.strip()\<close>\<close>
  "summary d =
     (case name d of None \<Rightarrow> Inl (KeyError ''name'') | Some n \<Rightarrow>
     (case checkin_date d of None \<Rightarrow> Inl (KeyError ''checkin_date'') | Some ci \<Rightarrow>
     (case checkout_date d of None \<Rightarrow> Inl (KeyError ''checkout_date'') | Some co \<Rightarrow>
     (case guests d of None \<Rightarrow> Inl (KeyError ''guests'') | Some g \<Rightarrow>
        Inr (strip (newline @ ''Please confirm your booking details:'' @ newline @ newline
          @ bullet @ '' Name: '' @ n @ newline
          @ bullet @ '' Check-in: '' @ ci @ newline
          @ bullet @ '' Check-out: '' @ co @ newline
          @ bullet @ '' Guests: '' @ str_int g @ newline
          @ bullet @ '' Breakfast: ''
              @ (if (case breakfast d of None \<Rightarrow> False | Some b \<Rightarrow> b) then ''Yes'' else ''No'') @ newline
          @ bullet @ '' Payment: ''
              @ (case payment_method d of None \<Rightarrow> ''Not specified'' | Some p \<Rightarrow> p) @ newline
          @ newline
          @ ''Type 'confirm' to complete your booking or 'cancel' to start over.'' @ newline))))))"

definition process_conversation_step ::
    "env \<Rightarrow> session_state \<Rightarrow> string \<Rightarrow> (error + response) \<times> session_state" where
  \<comment> \<open>The second component is the session after the call, also when the call raises.\<close>
  "process_conversation_step e session user_message =
     (let d = data session in
      if step session = ''name'' then
        (case extract_name e user_message of
           None \<Rightarrow> (Inr (say ''I didn't catch your name. Could you please tell me your name?''), session)
         | Some n \<Rightarrow>
             if n = [] then
               (Inr (say ''I didn't catch your name. Could you please tell me your name?''), session)
             else
               (Inr (say (''Nice to meet you, '' @ n
                  @ ''! When would you like to check in? (e.g., 'tomorrow', 'January 15th', '2024-01-15')'')),
                session\<lparr>data := d\<lparr>name := Some n\<rparr>, step := ''checkin''\<rparr>))
      else if step session = ''checkin'' then
        (case parse_date e user_message of
           None \<Rightarrow>
             (Inr (say ''I couldn't understand the date. Please provide your check-in date (e.g., 'tomorrow', 'January 15th', or '2024-01-15')''),
              session)
         | Some ci \<Rightarrow>
             if ci = [] then
               (Inr (say ''I couldn't understand the date. Please provide your check-in date (e.g., 'tomorrow', 'January 15th', or '2024-01-15')''),
                session)
             else
               (Inr (say (''Great! Check-in on '' @ ci @ ''. When would you like to check out?'')),
                session\<lparr>data := d\<lparr>checkin_date := Some ci\<rparr>, step := ''checkout''\<rparr>))
      else if step session = ''checkout'' then
        (case parse_date e user_message of
           None \<Rightarrow>
             (Inr (say ''I couldn't understand the check-out date. Please provide a valid date.''), session)
         | Some co \<Rightarrow>
             if co = [] then
               (Inr (say ''I couldn't understand the check-out date. Please provide a valid date.''), session)
             else
               (case checkin_date d of
                  None \<Rightarrow> (Inl (KeyError ''checkin_date''), session)
                | Some ci \<Rightarrow>
                    if validate_date_order ci co then
                      (Inr (say (''Perfect! Check-out on '' @ co @ ''. How many guests will be staying?'')),
                       session\<lparr>data := d\<lparr>checkout_date := Some co\<rparr>, step := ''guests''\<rparr>)
                    else
                      (Inr (say (''Check-out date must be after check-in date ('' @ ci
                         @ ''). Please provide a later check-out date.'')),
                       session)))
      else if step session = ''guests'' then
        (case parse_guests (fuzz_ratio e) user_message of
           None \<Rightarrow> (Inr (say ''Please tell me the number of guests (1-10 people).''), session)
         | Some g \<Rightarrow>
             if g = 0 then
               (Inr (say ''Please tell me the number of guests (1-10 people).''), session)
             else
               (Inr (say (''Noted: '' @ str_int g @ '' '' @ (if g = 1 then ''guest'' else ''guests'')
                  @ ''. Would you like to include breakfast? (yes/no)'')),
                session\<lparr>data := d\<lparr>guests := Some g\<rparr>, step := ''breakfast''\<rparr>))
      else if step session = ''breakfast'' then
        (case is_yes (fuzz_ratio e) user_message of
           None \<Rightarrow> (Inr (say ''Please answer yes or no for breakfast preference.''), session)
         | Some b \<Rightarrow>
             (Inr (say (''Excellent, '' @ (if b then ''with breakfast'' else ''without breakfast'')
                @ ''! What's your preferred payment method? (credit card, debit card, cash, paypal, or 'skip')'')),
              session\<lparr>data := d\<lparr>breakfast := Some b\<rparr>, step := ''payment''\<rparr>))
      else if step session = ''payment'' then
        (let d' = d\<lparr>payment_method := Some (payment_value (fuzz_ratio e) (str_title e) user_message)\<rparr>;
             session' = session\<lparr>data := d', step := ''confirm''\<rparr>
         in case summary d' of
              Inl err \<Rightarrow> (Inl err, session')
            | Inr text \<Rightarrow> (Inr (say text), session'))
      else if step session = ''confirm'' then
        (let response = strip (lower user_message) in
         if response \<in> set [''confirm'', ''yes'', ''book'', ''book it'', ''proceed''] then
           (case save_booking_to_db e (case session_id session of None \<Rightarrow> [] | Some sid \<Rightarrow> sid) d of
              Inl err \<Rightarrow> (Inl err, session)
            | Inr None \<Rightarrow> (Inl (KeyError ''id''), session\<lparr>step := ''complete''\<rparr>)
            | Inr (Some booking_record) \<Rightarrow>
                (Inr \<lparr>reply = party @ '' Booking confirmed! Your reservation ID is #''
                          @ str_int (rec_id booking_record) @ ''. Thank you for choosing our hotel!'',
                       complete = True, booking = Some booking_record\<rparr>,
                 session\<lparr>step := ''complete''\<rparr>))
         else if response \<in> set [''cancel'', ''no'', ''restart'', ''start over''] then
           (Inr (say ''Booking cancelled. Let's start over! What's your name?''),
            session\<lparr>step := ''name'', data := empty_data\<rparr>)
         else
           (Inr (say ''Please type 'confirm' to complete your booking or 'cancel' to start over.''), session))
      else
        (Inr (say ''Let's start over! What's your name?''),
         session\<lparr>step := ''name'', data := empty_data\<rparr>))"

inductive reachable :: "session_state \<Rightarrow> bool" where
  \<comment> \<open>the sessions a dialogue can be in: a fresh one, then any number of turns, against any
      behaviour of the outside world\<close>
  fresh: "reachable ((new_session now)\<lparr>session_id := sid\<rparr>)"
| turn: "reachable s \<Longrightarrow> reachable (snd (process_conversation_step e s user_message))"

section \<open>The extractors as the specification words them\<close>

text \<open>
  The specification describes \<open>parse_guests\<close> as four strategies tried in a fixed order.
  Each strategy is stated here on its own, from the specification's words, to be compared
  with the function translated from the source.
\<close>

definition solo_phrase :: "string \<Rightarrow> int option" where
  \<comment> \<open>strategy 1: a solo-indicator phrase occurs in the trimmed, lowercased text\<close>
  "solo_phrase text =
     (if list_ex (\<lambda>phrase. sublist phrase (lower (strip text))) single_indicators then Some 1
      else None)"

definition first_digits_in_range :: "string \<Rightarrow> int option" where
  \<comment> \<open>strategy 2: the first digit sequence whose value lies in [1,10]\<close>
  "first_digits_in_range text =
     find (\<lambda>n. 1 \<le> n \<and> n \<le> 10) (map int_of_digits (findall_digits text))"

definition first_readable_digits_in_range :: "string \<Rightarrow> int option" where
  \<comment> \<open>strategy 2 as the code has it: the first digit sequence that \<open>int()\<close> converts (one of
      at most 4300 digits) and whose value lies in [1,10]\<close>
  "first_readable_digits_in_range text =
     find (\<lambda>n. 1 \<le> n \<and> n \<le> 10) (List.map_filter py_int (findall_digits text))"

definition tokens :: "string \<Rightarrow> string list" where
  \<comment> \<open>the whitespace-separated tokens of the normalised text, punctuation stripped\<close>
  "tokens text = map (strip_chars punctuation) (split (lower (strip text)))"

definition first_exact_word :: "string \<Rightarrow> int option" where
  \<comment> \<open>strategy 3: the first token that is a key of the word-to-number table\<close>
  "first_exact_word text =
     (case find (\<lambda>t. map_of word_to_num t \<noteq> None) (tokens text) of
        None \<Rightarrow> None
      | Some t \<Rightarrow> map_of word_to_num t)"

definition first_similar_word :: "ratio_fn \<Rightarrow> string \<Rightarrow> int option" where
  \<comment> \<open>strategy 4: the first token within similarity 80 of a table word, with the value of
      the first such word\<close>
  "first_similar_word ratio text =
     (case find (\<lambda>t. list_ex (\<lambda>(w, v). ratio t w \<ge> 80) word_to_num) (tokens text) of
        None \<Rightarrow> None
      | Some t \<Rightarrow> map_option snd (find (\<lambda>(w, v). ratio t w \<ge> 80) word_to_num))"

fun first_success :: "'a option list \<Rightarrow> 'a option" where
  "first_success [] = None"
| "first_success (None # rest) = first_success rest"
| "first_success (Some v # rest) = Some v"

definition parse_guests_spec :: "ratio_fn \<Rightarrow> string \<Rightarrow> int option" where
  \<comment> \<open>the four strategies in order, the second by the value of the digit sequence alone\<close>
  "parse_guests_spec ratio text =
     first_success [solo_phrase text, first_digits_in_range text, first_exact_word text,
                    first_similar_word ratio text]"

text \<open>The three phases of \<open>is_yes\<close>, each on the trimmed, lowercased input.\<close>

definition exact_answer :: "string \<Rightarrow> bool option" where
  \<comment> \<open>phase 1: exact membership in the affirmative or the negative word list\<close>
  "exact_answer t =
     (if t \<in> set yes_words then Some True else if t \<in> set no_words then Some False else None)"

definition whole_input_answer :: "ratio_fn \<Rightarrow> string \<Rightarrow> bool option" where
  \<comment> \<open>phase 2: the whole input within similarity 80 of a list word\<close>
  "whole_input_answer ratio t =
     (if list_ex (\<lambda>w. ratio t w \<ge> 80) yes_words then Some True
      else if list_ex (\<lambda>w. ratio t w \<ge> 80) no_words then Some False
      else None)"

definition yes_tokens :: "ratio_fn \<Rightarrow> string \<Rightarrow> nat" where
  \<comment> \<open>the number of tokens within similarity 70 of an affirmative word\<close>
  "yes_tokens ratio t = length (filter (\<lambda>tok. list_ex (\<lambda>w. ratio tok w \<ge> 70) yes_words) (split t))"

definition no_tokens :: "ratio_fn \<Rightarrow> string \<Rightarrow> nat" where
  "no_tokens ratio t = length (filter (\<lambda>tok. list_ex (\<lambda>w. ratio tok w \<ge> 70) no_words) (split t))"

definition token_vote :: "ratio_fn \<Rightarrow> string \<Rightarrow> bool option" where
  \<comment> \<open>phase 3: the majority of the per-token matches, absent on a tie\<close>
  "token_vote ratio t =
     (if yes_tokens ratio t > no_tokens ratio t then Some True
      else if no_tokens ratio t > yes_tokens ratio t then Some False
      else None)"

definition contrary_ratio :: ratio_fn where
  \<comment> \<open>a scoring function that finds every negative word in every text\<close>
  "contrary_ratio s w = (if w \<in> set no_words then 100 else 0)"

text \<open>
  The date order validator as the specification words it: both strings in the ISO form
  \<open>YYYY-MM-DD\<close>, four digits, a hyphen, two digits, a hyphen, two digits, naming a calendar
  date, and the second date strictly later.
\<close>

fun iso_form :: "string \<Rightarrow> bool" where
  "iso_form [y1, y2, y3, y4, h1, m1, m2, h2, d1, d2] \<longleftrightarrow>
     list_all is_digit [y1, y2, y3, y4, m1, m2, d1, d2] \<and> h1 = CHR ''-'' \<and> h2 = CHR ''-''"
| "iso_form _ \<longleftrightarrow> False"

fun parse_iso :: "string \<Rightarrow> date option" where
  "parse_iso [y1, y2, y3, y4, h1, m1, m2, h2, d1, d2] =
     (if list_all is_digit [y1, y2, y3, y4, m1, m2, d1, d2] \<and> h1 = CHR ''-'' \<and> h2 = CHR ''-''
      then make_date (int_of_digits [y1, y2, y3, y4]) (int_of_digits [m1, m2])
             (int_of_digits [d1, d2])
      else None)"
| "parse_iso _ = None"

definition validate_date_order_spec :: "string \<Rightarrow> string \<Rightarrow> bool" where
  "validate_date_order_spec d1 d2 =
     (case parse_iso d1 of
        None \<Rightarrow> False
      | Some checkin \<Rightarrow>
          (case parse_iso d2 of
             None \<Rightarrow> False
           | Some checkout \<Rightarrow> toordinal checkin < toordinal checkout))"

text \<open>Calendar dates as the constructor of \<open>date\<close> admits them, and the length of a year.\<close>

definition valid_date :: "date \<Rightarrow> bool" where
  "valid_date dt \<longleftrightarrow> 1 \<le> year dt \<and> year dt \<le> 9999 \<and> 1 \<le> month dt \<and> month dt \<le> 12
     \<and> 1 \<le> day dt \<and> day dt \<le> days_in_month (year dt) (month dt)"

definition year_length :: "int \<Rightarrow> int" where
  "year_length y = (if is_leap y then 366 else 365)"

section \<open>The session invariant\<close>

definition fields_present :: "booking_data \<Rightarrow> bool list" where
  \<comment> \<open>which fields are set, in the order of the steps that collect them\<close>
  "fields_present d = [name d \<noteq> None, checkin_date d \<noteq> None, checkout_date d \<noteq> None,
                       guests d \<noteq> None, breakfast d \<noteq> None, payment_method d \<noteq> None]"

fun populated_in_order :: "bool list \<Rightarrow> bool" where
  \<comment> \<open>no field is present after an absent one\<close>
  "populated_in_order [] = True"
| "populated_in_order (p # ps) = ((p \<or> \<not> list_ex id ps) \<and> populated_in_order ps)"

definition kept :: "'a option \<Rightarrow> 'a option \<Rightarrow> bool" where
  \<comment> \<open>a field that was set is still set, to the same value\<close>
  "kept before after = (case before of None \<Rightarrow> True | Some v \<Rightarrow> after = Some v)"

definition keeps_fields :: "booking_data \<Rightarrow> booking_data \<Rightarrow> bool" where
  "keeps_fields d d' \<longleftrightarrow>
     kept (name d) (name d') \<and> kept (checkin_date d) (checkin_date d')
     \<and> kept (checkout_date d) (checkout_date d') \<and> kept (guests d) (guests d')
     \<and> kept (breakfast d) (breakfast d') \<and> kept (payment_method d) (payment_method d')"

definition fields_at_step :: "string \<Rightarrow> nat option" where
  \<comment> \<open>how many fields have been collected when the session is at a step\<close>
  "fields_at_step st =
     (if st = ''name'' then Some 0 else if st = ''checkin'' then Some 1
      else if st = ''checkout'' then Some 2 else if st = ''guests'' then Some 3
      else if st = ''breakfast'' then Some 4 else if st = ''payment'' then Some 5
      else if st = ''confirm'' then Some 6 else if st = ''complete'' then Some 6
      else None)"

definition session_inv :: "session_state \<Rightarrow> bool" where
  \<comment> \<open>exactly the fields of the earlier steps are set\<close>
  "session_inv s =
     (case fields_at_step (step s) of
        None \<Rightarrow> False
      | Some k \<Rightarrow> fields_present (data s) = map (\<lambda>i. i < k) [0, 1, 2, 3, 4, 5])"

definition best_so_far :: "ratio_fn \<Rightarrow> string \<Rightarrow> string set \<Rightarrow> string option \<times> rat \<Rightarrow> bool" where
  \<comment> \<open>the loop invariant of the scan over the payment methods\<close>
  "best_so_far ratio p seen acc \<longleftrightarrow>
     (fst acc = None \<and> snd acc = 0 \<and> (\<forall>x\<in>seen. ratio p x \<le> 60))
     \<or> (\<exists>b. fst acc = Some b \<and> b \<in> seen \<and> snd acc = ratio p b \<and> ratio p b > 60
             \<and> (\<forall>x\<in>seen. ratio p x \<le> ratio p b))"

section \<open>A demonstration dialogue\<close>

text \<open>
  Concrete inputs for the scenarios of the specification: one behaviour of the outside world,
  and the session it leads to turn by turn.
\<close>

fun run_turns :: "env \<Rightarrow> session_state \<Rightarrow> string list \<Rightarrow> session_state" where
  \<comment> \<open>a session driven through a list of user messages\<close>
  "run_turns e s [] = s"
| "run_turns e s (m # ms) = run_turns e (snd (process_conversation_step e s m)) ms"

definition demo_env :: env where
  \<comment> \<open>one concrete behaviour of the outside world, for the scenarios\<close>
  "demo_env = \<lparr>
     extract_name = (\<lambda>s. if s = ''I'm Alice'' then Some ''Alice'' else None),
     parse_date = (\<lambda>s. if s = ''tomorrow'' then Some ''2024-01-20''
                        else if s = ''in 3 days'' then Some ''2024-01-22''
                        else if strptime_ymd s \<noteq> None then Some s else None),
     fuzz_ratio = indel_ratio,
     str_title = (\<lambda>s. case title s of None \<Rightarrow> s | Some t \<Rightarrow> t),
     db_connect = None,
     db_insert = (\<lambda>(sid, n, ci, co, g, b, p).
        Inr (Some \<lparr>col_id = 7, col_session_id = sid, col_name = n, col_checkin = ci,
                   col_checkout = co, col_guests = g, col_breakfast = (if b then 1 else 0),
                   col_payment_method = p, col_created_at = ''2024-01-15 10:00:00''\<rparr>))\<rparr>"

definition demo_start :: session_state where
  "demo_start = (new_session ''2024-01-15T10:00:00'')\<lparr>session_id := Some ''demo''\<rparr>"


definition demo_turns :: "string list" where
  "demo_turns = [''I'm Alice'', ''tomorrow'', ''in 3 days'', ''2'', ''yes'', ''visa'']"

definition demo_after :: "nat \<Rightarrow> session_state" where
  \<comment> \<open>the demonstration session after its first \<open>k\<close> turns\<close>
  "demo_after k = run_turns demo_env demo_start (take k demo_turns)"

definition demo_data :: booking_data where
  "demo_data = \<lparr>name = Some ''Alice'', checkin_date = Some ''2024-01-20'',
                 checkout_date = Some ''2024-01-22'', guests = Some 2, breakfast = Some True,
                 payment_method = Some ''Visa''\<rparr>"

definition demo_confirm :: session_state where
  "demo_confirm = \<lparr>step = ''confirm'', data = demo_data, session_id = Some ''demo'',
                    created_at = ''2024-01-15T10:00:00''\<rparr>"

definition demo_record :: booking_record where
  "demo_record = \<lparr>rec_id = 7, rec_session_id = ''demo'', rec_name = ''Alice'',
                   rec_checkin = ''2024-01-20'', rec_checkout = ''2024-01-22'', rec_guests = 2,
                   rec_breakfast = True, rec_payment_method = ''Visa'',
                   rec_created_at = ''2024-01-15 10:00:00''\<rparr>"

definition failing_env :: env where
  \<comment> \<open>the same world with the database out of reach\<close>
  "failing_env = demo_env\<lparr>db_connect := Some DatabaseError\<rparr>"

section \<open>Properties of the guest-count extractor\<close>

subsection \<open>Trimming and lowercasing\<close>

lemma is_space_lower_char: "is_space (lower_char c) = is_space c"
proof (cases "is_upper c")
  case True
  define n where "n = (of_char c :: nat)"
  from True have rng: "(65 \<le> n \<and> n \<le> 90) \<or> (192 \<le> n \<and> n \<le> 222)"
    by (auto simp: is_upper_def n_def Let_def)
  have "(of_char (lower_char c) :: nat) = (n + 32) mod 256"
    using True by (simp add: lower_char_def n_def)
  with rng show ?thesis
    unfolding is_space_def Let_def n_def [symmetric] by auto
next
  case False
  then show ?thesis by (simp add: lower_char_def)
qed

lemma lower_strip: "lower (strip s) = strip (lower s)"
proof -
  have comp: "is_space \<circ> lower_char = is_space"
    by (rule ext) (simp add: is_space_lower_char)
  show ?thesis
    by (simp add: lower_def strip_def rev_map dropWhile_map comp)
qed

lemma sublist_dropWhile:
  assumes "sublist xs ys" and "xs \<noteq> []" and "\<not> P (hd xs)"
  shows "sublist xs (dropWhile P ys)"
proof -
  from assms(1) obtain ps ss where ys: "ys = ps @ xs @ ss"
    by (auto simp: sublist_def)
  have "sublist xs (dropWhile P (ps @ xs @ ss))"
  proof (induction ps)
    case Nil
    from assms(2,3) have "dropWhile P (xs @ ss) = xs @ ss"
      by (cases xs) auto
    then show ?case by simp
  next
    case (Cons p ps)
    show ?case
    proof (cases "P p")
      case True
      with Cons show ?thesis by simp
    next
      case False
      then have "dropWhile P ((p # ps) @ xs @ ss) = (p # ps) @ xs @ ss" by simp
      then show ?thesis by (metis sublist_appendI)
    qed
  qed
  with ys show ?thesis by simp
qed

lemma sublist_strip:
  assumes "sublist xs ys" and "xs \<noteq> []" and "\<not> is_space (hd xs)" and "\<not> is_space (last xs)"
  shows "sublist xs (strip ys)"
proof -
  have 1: "sublist xs (dropWhile is_space ys)"
    using assms by (intro sublist_dropWhile)
  have "sublist (rev xs) (rev (dropWhile is_space ys))"
    using 1 by (simp add: sublist_rev)
  then have "sublist (rev xs) (dropWhile is_space (rev (dropWhile is_space ys)))"
    using assms(2,4) by (intro sublist_dropWhile) (simp_all add: hd_rev)
  then have "sublist (rev (rev xs)) (rev (dropWhile is_space (rev (dropWhile is_space ys))))"
    by (simp only: sublist_rev)
  then show ?thesis by (simp add: strip_def)
qed

lemma indicator_edges:
  assumes "indicator \<in> set single_indicators"
  shows "indicator \<noteq> [] \<and> \<not> is_space (hd indicator) \<and> \<not> is_space (last indicator)"
  using assms by (auto simp: single_indicators_def is_space_def)

lemma solo_in_stripped:
  assumes "list_ex (\<lambda>indicator. sublist indicator (lower text)) single_indicators"
  shows "list_ex (\<lambda>indicator. sublist indicator (lower (strip text))) single_indicators"
proof -
  from assms obtain i where i: "i \<in> set single_indicators" "sublist i (lower text)"
    by (auto simp: list_ex_iff)
  from indicator_edges[OF i(1)] i(2) have "sublist i (strip (lower text))"
    by (intro sublist_strip) auto
  with i(1) show ?thesis by (auto simp: list_ex_iff lower_strip)
qed

subsection \<open>The solo indicators\<close>

text \<open>
  C10. The solo-indicator check of \<open>parse_guests\<close> is a substring test on the lowercased
  input and runs before the digit scan: whenever the lowercased text contains one of the
  indicators anywhere, also inside a longer word such as "members", the result is 1, whatever
  digits the input holds and whatever the scoring function is.
\<close>

theorem parse_guests_solo_substring:
  assumes "list_ex (\<lambda>indicator. sublist indicator (lower text)) single_indicators"
  shows "parse_guests ratio text = Some 1"
proof -
  from solo_in_stripped[OF assms] obtain i
    where i: "i \<in> set single_indicators" "sublist i (lower (strip text))"
    by (auto simp: list_ex_iff)
  from indicator_edges[OF i(1)] i(2) have "lower (strip text) \<noteq> []"
    by auto
  then have "strip text \<noteq> []" "text \<noteq> []"
    by (auto simp: lower_def strip_def)
  with solo_in_stripped[OF assms] show ?thesis
    by (simp add: parse_guests_def)
qed

theorem parse_guests_solo_substring_witness:
  "list_ex (\<lambda>indicator. sublist indicator (lower ''4 Members'')) single_indicators
   \<and> scan_numbers (findall_digits ''4 Members'') = Some 4
   \<and> parse_guests indel_ratio ''4 Members'' = Some 1"
proof -
  have h: "list_ex (\<lambda>indicator. sublist indicator (lower ''4 Members'')) single_indicators"
    by code_simp
  have d: "scan_numbers (findall_digits ''4 Members'') = Some 4"
    by code_simp
  from h d parse_guests_solo_substring[OF h, of indel_ratio] show ?thesis by simp
qed

text \<open>
  C6, as amended. \<open>parse_guests("just me")\<close> is 1, and \<open>parse_guests("a dozen")\<close> is 1 as
  well: no digit occurs, and the token "a" is a key of the word table with value 1. The
  scenario's "absent" for "a dozen" does not hold.
\<close>

theorem parse_guests_scenario_d:
  "parse_guests ratio ''just me'' = Some 1 \<and> parse_guests ratio ''a dozen'' = Some 1"
  by code_simp

theorem parse_guests_a_dozen_counterexample:
  "\<not> (parse_guests indel_ratio ''just me'' = Some 1 \<and> parse_guests indel_ratio ''a dozen'' = None)"
  by code_simp

subsection \<open>The order of the strategies\<close>

lemma scan_numbers_find:
  "scan_numbers xs = find (\<lambda>n. 1 \<le> n \<and> n \<le> 10) (List.map_filter py_int xs)"
  by (induction xs) (simp_all add: map_filter_simps split: option.splits)

lemma scan_words_find:
  "scan_words ws =
     (case find (\<lambda>t. map_of word_to_num t \<noteq> None) (map (strip_chars punctuation) ws) of
        None \<Rightarrow> None
      | Some t \<Rightarrow> map_of word_to_num t)"
  by (induction ws) (auto simp: Let_def split: option.splits)

lemma fuzzy_table_find:
  "fuzzy_table ratio t tbl = map_option snd (find (\<lambda>(w, v). ratio t w \<ge> 80) tbl)"
  by (induction tbl) auto

lemma fuzzy_table_None:
  "fuzzy_table ratio t tbl = None \<longleftrightarrow> \<not> list_ex (\<lambda>(w, v). ratio t w \<ge> 80) tbl"
  by (induction tbl) (auto split: if_splits)

lemma scan_fuzzy_find:
  "scan_fuzzy ratio ws =
     (case find (\<lambda>t. list_ex (\<lambda>(w, v). ratio t w \<ge> 80) word_to_num)
             (map (strip_chars punctuation) ws) of
        None \<Rightarrow> None
      | Some t \<Rightarrow> map_option snd (find (\<lambda>(w, v). ratio t w \<ge> 80) word_to_num))"
proof (induction ws)
  case Nil
  show ?case by simp
next
  case (Cons w ws)
  show ?case
  proof (cases "fuzzy_table ratio (strip_chars punctuation w) word_to_num")
    case None
    then have "\<not> list_ex (\<lambda>(x, v). ratio (strip_chars punctuation w) x \<ge> 80) word_to_num"
      by (simp add: fuzzy_table_None)
    with Cons None show ?thesis by simp
  next
    case (Some v)
    then have ex: "list_ex (\<lambda>(x, v). ratio (strip_chars punctuation w) x \<ge> 80) word_to_num"
      using fuzzy_table_None[of ratio "strip_chars punctuation w" word_to_num] by simp
    have "scan_fuzzy ratio (w # ws) = fuzzy_table ratio (strip_chars punctuation w) word_to_num"
      using Some by simp
    also have "\<dots> = map_option snd
        (find (\<lambda>(x, v). ratio (strip_chars punctuation w) x \<ge> 80) word_to_num)"
      by (rule fuzzy_table_find)
    finally show ?thesis using ex by simp
  qed
qed

lemma dropWhile_rev_Nil: "dropWhile P (rev xs) = [] \<longleftrightarrow> (\<forall>x\<in>set xs. P x)"
  by (simp add: dropWhile_eq_Nil_conv)

lemma strip_Nil_iff: "strip s = [] \<longleftrightarrow> (\<forall>c\<in>set s. is_space c)"
proof
  assume "strip s = []"
  then have all: "\<forall>c\<in>set (dropWhile is_space s). is_space c"
    by (simp add: strip_def dropWhile_eq_Nil_conv)
  have "dropWhile is_space s = []"
  proof (rule ccontr)
    assume ne: "dropWhile is_space s \<noteq> []"
    then have "\<not> is_space (hd (dropWhile is_space s))" by (rule hd_dropWhile)
    moreover from ne all have "is_space (hd (dropWhile is_space s))" by simp
    ultimately show False by simp
  qed
  then show "\<forall>c\<in>set s. is_space c" by (simp add: dropWhile_eq_Nil_conv)
next
  assume "\<forall>c\<in>set s. is_space c"
  then show "strip s = []" by (auto simp: strip_def dest: set_dropWhileD)
qed

lemma space_not_digit: "is_space c \<Longrightarrow> \<not> is_digit c"
  by (auto simp: is_space_def is_digit_def Let_def)

lemma findall_no_digits: "\<forall>c\<in>set s. \<not> is_digit c \<Longrightarrow> findall_acc [] s = []"
  by (induction s) simp_all

lemma blank_strategies:
  assumes "strip text = []"
  shows "solo_phrase text = None" "first_readable_digits_in_range text = None"
        "first_exact_word text = None" "first_similar_word ratio text = None"
proof -
  from assms have "\<forall>c\<in>set text. \<not> is_digit c"
    by (auto simp: strip_Nil_iff dest: space_not_digit)
  then show "first_readable_digits_in_range text = None"
    by (simp add: first_readable_digits_in_range_def findall_digits_def findall_no_digits
          map_filter_simps)
  show "solo_phrase text = None"
    using assms by (simp add: solo_phrase_def lower_def single_indicators_def)
  show "first_exact_word text = None"
    using assms by (simp add: first_exact_word_def tokens_def lower_def split_def)
  show "first_similar_word ratio text = None"
    using assms by (simp add: first_similar_word_def tokens_def lower_def split_def)
qed

lemma first_success_Cons:
  "first_success (x # xs) = (case x of None \<Rightarrow> first_success xs | Some v \<Rightarrow> Some v)"
  by (cases x) simp_all

lemma parse_guests_refines:
  "parse_guests ratio text =
     first_success [solo_phrase text, first_readable_digits_in_range text,
                    first_exact_word text, first_similar_word ratio text]"
proof (cases "strip text = []")
  case True
  then show ?thesis
    by (simp add: parse_guests_def blank_strategies)
next
  case False
  then have "text \<noteq> []" by (auto simp: strip_def)
  with False show ?thesis
    by (simp add: parse_guests_def solo_phrase_def
          first_readable_digits_in_range_def first_exact_word_def first_similar_word_def
          tokens_def scan_numbers_find scan_words_find scan_fuzzy_find Let_def
          first_success_Cons
        split: option.splits)
qed

lemma first_success_None: "first_success xs = None \<longleftrightarrow> list_all (\<lambda>x. x = None) xs"
  by (induction xs rule: first_success.induct) simp_all

subsection \<open>A numeral longer than the interpreter reads\<close>

lemma findall_all_digits:
  "\<forall>c\<in>set s. is_digit c \<Longrightarrow> findall_acc w s = (if w @ s = [] then [] else [w @ s])"
  by (induction s arbitrary: w) simp_all

lemma split_no_space:
  "\<forall>c\<in>set s. \<not> is_space c \<Longrightarrow> split_acc w s = (if w @ s = [] then [] else [w @ s])"
  by (induction s arbitrary: w) simp_all

lemma dropWhile_none: "\<forall>c\<in>set s. \<not> P c \<Longrightarrow> dropWhile P s = s"
  by (cases s) simp_all

lemma strip_no_space: "\<forall>c\<in>set s. \<not> is_space c \<Longrightarrow> strip s = s"
  by (simp add: strip_def dropWhile_none)

lemma strip_chars_none: "\<forall>c\<in>set s. c \<notin> set chars \<Longrightarrow> strip_chars chars s = s"
  by (simp add: strip_chars_def dropWhile_none)

lemma digit_plain:
  assumes "is_digit c"
  shows "\<not> is_space c" "\<not> is_upper c" "c \<notin> set punctuation"
  using assms by (auto simp: is_digit_def is_space_def is_upper_def punctuation_def Let_def)

lemma lower_digits: "\<forall>c\<in>set s. is_digit c \<Longrightarrow> lower s = s"
  by (auto simp: lower_def lower_char_def digit_plain intro: map_idI)

lemma int_of_digits_zeros: "int_of_digits (replicate n (CHR ''0'') @ s) = int_of_digits s"
proof -
  have "foldl (\<lambda>acc c. 10 * acc + digit_val c) 0 (replicate n (CHR ''0'')) = 0"
    by (induction n) (simp_all add: digit_val_def)
  then show ?thesis by (simp add: int_of_digits_def)
qed

lemma lcs_disjoint: "set a \<inter> set b = {} \<Longrightarrow> lcs a b = 0"
  by (induction a b rule: lcs.induct) auto

lemma indel_ratio_disjoint:
  assumes "set a \<inter> set b = {}" "b \<noteq> []"
  shows "indel_ratio a b = 0"
proof -
  from assms(2) have "length a + length b \<noteq> 0" by simp
  then have "(of_nat (length a + length b) :: rat) \<noteq> 0"
    by (simp only: of_nat_eq_0_iff not_False_eq_True)
  with assms show ?thesis
    by (simp add: indel_ratio_def indel_distance_def lcs_disjoint Let_def)
qed

lemma digits_no_solo:
  assumes "\<forall>c\<in>set s. is_digit c"
  shows "\<not> list_ex (\<lambda>indicator. sublist indicator s) single_indicators"
proof
  assume "list_ex (\<lambda>indicator. sublist indicator s) single_indicators"
  then obtain i where i: "i \<in> set single_indicators" "sublist i s"
    by (auto simp: list_ex_iff)
  from i(2) have "set i \<subseteq> set s" by (rule set_mono_sublist)
  with assms have "\<forall>c\<in>set i. is_digit c" by blast
  with i(1) show False
    by (auto simp: single_indicators_def is_digit_def)
qed

lemma digits_no_word:
  assumes "\<forall>c\<in>set s. is_digit c" "s \<noteq> []"
  shows "map_of word_to_num s = None" "fuzzy_table indel_ratio s word_to_num = None"
proof -
  have letters: "\<forall>(w, v)\<in>set word_to_num. w \<noteq> [] \<and> (\<forall>c\<in>set w. \<not> is_digit c)"
    by (simp add: word_to_num_def is_digit_def)
  from assms obtain c where c: "c \<in> set s" "is_digit c" by (cases s) auto
  with letters have "s \<notin> fst ` set word_to_num" by fastforce
  then show "map_of word_to_num s = None" by (simp add: map_of_eq_None_iff)
  have "\<forall>(w, v)\<in>set word_to_num. indel_ratio s w = 0"
  proof (clarify)
    fix w v assume wv: "(w, v) \<in> set word_to_num"
    with letters have "w \<noteq> []" "\<forall>c\<in>set w. \<not> is_digit c" by auto
    with assms(1) have "set s \<inter> set w = {}" by auto
    then show "indel_ratio s w = 0" using \<open>w \<noteq> []\<close> by (rule indel_ratio_disjoint)
  qed
  then have "\<not> list_ex (\<lambda>(w, v). indel_ratio s w \<ge> 80) word_to_num"
    by (auto simp: list_ex_iff)
  then show "fuzzy_table indel_ratio s word_to_num = None"
    by (simp add: fuzzy_table_None)
qed

lemma long_numeral_digits:
  "\<forall>c\<in>set (replicate 4300 (CHR ''0'') @ ''5''). is_digit c"
  by (auto simp: is_digit_def)

lemma long_numeral_skipped:
  "parse_guests indel_ratio (replicate 4300 (CHR ''0'') @ ''5'') = None"
proof -
  let ?s = "replicate 4300 (CHR ''0'') @ ''5''"
  note d = long_numeral_digits
  have ne: "?s \<noteq> []" by simp
  from d have plain: "\<forall>c\<in>set ?s. \<not> is_space c" "\<forall>c\<in>set ?s. c \<notin> set punctuation"
    using digit_plain by blast+
  have st: "lower (strip ?s) = ?s"
    using plain(1) d by (simp only: strip_no_space lower_digits)
  have tooLong: "py_int ?s = None"
    by (simp add: py_int_def max_str_digits_def)
  have nums: "findall_digits ?s = [?s]"
    unfolding findall_digits_def using findall_all_digits[OF d, of "[]"] ne by simp
  have words: "split ?s = [?s]"
    unfolding split_def using split_no_space[OF plain(1), of "[]"] ne by simp
  have clean: "strip_chars punctuation ?s = ?s"
    using plain(2) by (rule strip_chars_none)
  have "strip ?s \<noteq> []" using plain(1) ne by (simp only: strip_no_space) simp
  then show ?thesis
    unfolding parse_guests_def st Let_def nums words
    using ne digits_no_solo[OF d] digits_no_word[OF d ne] tooLong clean
    by simp
qed

lemma long_numeral_value:
  "parse_guests_spec indel_ratio (replicate 4300 (CHR ''0'') @ ''5'') = Some 5"
proof -
  let ?s = "replicate 4300 (CHR ''0'') @ ''5''"
  note d = long_numeral_digits
  have ne: "?s \<noteq> []" by simp
  from d have plain: "\<forall>c\<in>set ?s. \<not> is_space c" using digit_plain by blast
  have st: "lower (strip ?s) = ?s"
    using plain d by (simp only: strip_no_space lower_digits)
  have solo: "solo_phrase ?s = None"
    unfolding solo_phrase_def st using digits_no_solo[OF d] by simp
  have nums: "findall_digits ?s = [?s]"
    unfolding findall_digits_def using findall_all_digits[OF d, of "[]"] ne by simp
  have "int_of_digits ?s = 5"
    by (simp only: int_of_digits_zeros) (simp add: int_of_digits_def digit_val_def)
  then have "first_digits_in_range ?s = Some 5"
    unfolding first_digits_in_range_def nums by simp
  with solo show ?thesis by (simp add: parse_guests_spec_def)
qed

text \<open>
  C5, as amended. For every input text and every scoring function, \<open>parse_guests\<close> is the
  first success among its four strategies in this order: solo-indicator phrase (1); first
  digit sequence that \<open>int()\<close> converts, one of at most 4300 digits, and whose value lies in
  [1,10], others being skipped; first token that is a key of the word-to-number table; first
  token within similarity 80 of a table word. It is absent exactly when all four are. A digit
  sequence of more than 4300 digits raises \<open>ValueError\<close> in \<open>int()\<close> and the loop moves on, so
  4300 zeros followed by 5 are skipped although their value is 5. On a text without such a
  sequence the second strategy is the first digit sequence whose value lies in [1,10].
\<close>

lemma readable_digits:
  assumes "list_all (\<lambda>run. length run \<le> max_str_digits) runs"
  shows "List.map_filter py_int runs = map int_of_digits runs"
  using assms by (induction runs) (simp_all add: map_filter_simps py_int_def)

theorem parse_guests_strategy_order:
  "parse_guests ratio text =
     first_success [solo_phrase text, first_readable_digits_in_range text,
                    first_exact_word text, first_similar_word ratio text]
   \<and> (parse_guests ratio text = None \<longleftrightarrow>
        solo_phrase text = None \<and> first_readable_digits_in_range text = None
        \<and> first_exact_word text = None \<and> first_similar_word ratio text = None)
   \<and> (list_all (\<lambda>run. length run \<le> 4300) (findall_digits text) \<longrightarrow>
        first_readable_digits_in_range text = first_digits_in_range text
        \<and> parse_guests ratio text = parse_guests_spec ratio text)"
proof -
  note r = parse_guests_refines[of ratio "text"]
  have short: "first_readable_digits_in_range text = first_digits_in_range text"
    if "list_all (\<lambda>run. length run \<le> 4300) (findall_digits text)"
    using that readable_digits[of "findall_digits text"]
    by (simp add: first_readable_digits_in_range_def first_digits_in_range_def
          max_str_digits_def)
  with r show ?thesis
    by (simp add: first_success_None parse_guests_spec_def)
qed

theorem parse_guests_strategy_order_witness:
  "list_all (\<lambda>run. length run \<le> 4300) (findall_digits ''12 people, 3 rooms'')
   \<and> first_digits_in_range ''12 people, 3 rooms'' = Some 3
   \<and> parse_guests indel_ratio ''12 people, 3 rooms'' = Some 3"
proof -
  have h: "list_all (\<lambda>run. length run \<le> 4300) (findall_digits ''12 people, 3 rooms'')"
    by code_simp
  have v: "first_digits_in_range ''12 people, 3 rooms'' = Some 3"
    and s: "solo_phrase ''12 people, 3 rooms'' = None"
    by code_simp+
  from parse_guests_strategy_order[of indel_ratio "''12 people, 3 rooms''"] h
  have "parse_guests indel_ratio ''12 people, 3 rooms''
        = parse_guests_spec indel_ratio ''12 people, 3 rooms''"
    by blast
  with v s have "parse_guests indel_ratio ''12 people, 3 rooms'' = Some 3"
    by (simp add: parse_guests_spec_def)
  with h v show ?thesis by blast
qed

theorem parse_guests_long_numeral_counterexample:
  "parse_guests indel_ratio (replicate 4300 (CHR ''0'') @ ''5'')
     \<noteq> parse_guests_spec indel_ratio (replicate 4300 (CHR ''0'') @ ''5'')"
  by (simp only: long_numeral_skipped long_numeral_value) simp

section \<open>Properties of the yes/no extractor\<close>

lemma is_yes_refines:
  "is_yes ratio input =
     (if strip input = [] then None
      else first_success [exact_answer (lower (strip input)),
                          whole_input_answer ratio (lower (strip input)),
                          token_vote ratio (lower (strip input))])"
proof (cases "strip input = []")
  case True
  then show ?thesis by (simp add: is_yes_def)
next
  case False
  then have "input \<noteq> []" by (auto simp: strip_def)
  with False show ?thesis
    by (simp add: is_yes_def exact_answer_def whole_input_answer_def token_vote_def
          yes_tokens_def no_tokens_def fuzzy_any_def count_matching_def Let_def
          first_success_Cons)
qed

lemma exact_answer_nonblank: "exact_answer (lower (strip input)) = Some b \<Longrightarrow> strip input \<noteq> []"
  by (auto simp: exact_answer_def lower_def yes_words_def no_words_def split: if_splits)

text \<open>
  C8. For every input text and every scoring function, \<open>is_yes\<close> is absent on blank
  input and otherwise the first answer among its phases in strict order: exact membership in
  the affirmative or negative list, whole-input match at similarity 80, per-token vote at
  similarity 70. An exact match decides the result whatever the scoring function says. In the
  third phase the answer is true iff the affirmative token count strictly exceeds the negative
  one, false iff the negative count strictly exceeds the affirmative one, absent iff they tie.
\<close>

theorem is_yes_phases:
  "is_yes ratio input =
     (if strip input = [] then None
      else first_success [exact_answer (lower (strip input)),
                          whole_input_answer ratio (lower (strip input)),
                          token_vote ratio (lower (strip input))])
   \<and> (exact_answer (lower (strip input)) = Some b \<longrightarrow> is_yes ratio input = Some b)
   \<and> (strip input \<noteq> [] \<and> exact_answer (lower (strip input)) = None
        \<and> whole_input_answer ratio (lower (strip input)) = None \<longrightarrow>
        (is_yes ratio input = Some True \<longleftrightarrow>
           yes_tokens ratio (lower (strip input)) > no_tokens ratio (lower (strip input)))
      \<and> (is_yes ratio input = Some False \<longleftrightarrow>
           no_tokens ratio (lower (strip input)) > yes_tokens ratio (lower (strip input)))
      \<and> (is_yes ratio input = None \<longleftrightarrow>
           yes_tokens ratio (lower (strip input)) = no_tokens ratio (lower (strip input))))"
proof (intro conjI impI)
  show "is_yes ratio input =
     (if strip input = [] then None
      else first_success [exact_answer (lower (strip input)),
                          whole_input_answer ratio (lower (strip input)),
                          token_vote ratio (lower (strip input))])"
    by (rule is_yes_refines)
next
  assume "exact_answer (lower (strip input)) = Some b"
  then show "is_yes ratio input = Some b"
    using exact_answer_nonblank[of input b] by (simp add: is_yes_refines)
next
  assume a: "strip input \<noteq> [] \<and> exact_answer (lower (strip input)) = None
        \<and> whole_input_answer ratio (lower (strip input)) = None"
  then have eq: "is_yes ratio input = token_vote ratio (lower (strip input))"
    by (simp add: is_yes_refines first_success_Cons split: option.splits)
  show "is_yes ratio input = Some True \<longleftrightarrow>
           yes_tokens ratio (lower (strip input)) > no_tokens ratio (lower (strip input))"
    by (simp add: eq token_vote_def)
  show "is_yes ratio input = Some False \<longleftrightarrow>
           no_tokens ratio (lower (strip input)) > yes_tokens ratio (lower (strip input))"
    by (auto simp: eq token_vote_def)
  show "is_yes ratio input = None \<longleftrightarrow>
           yes_tokens ratio (lower (strip input)) = no_tokens ratio (lower (strip input))"
    by (auto simp: eq token_vote_def)
qed

theorem is_yes_phases_witness:
  "exact_answer (lower (strip '' YES '')) = Some True
   \<and> is_yes contrary_ratio '' YES '' = Some True
   \<and> strip ''yes no'' \<noteq> [] \<and> exact_answer (lower (strip ''yes no'')) = None
   \<and> whole_input_answer indel_ratio (lower (strip ''yes no'')) = None
   \<and> yes_tokens indel_ratio (lower (strip ''yes no'')) = no_tokens indel_ratio (lower (strip ''yes no''))
   \<and> is_yes indel_ratio ''yes no'' = None"
proof -
  have h1: "exact_answer (lower (strip '' YES '')) = Some True" by code_simp
  have h2: "strip ''yes no'' \<noteq> []" by code_simp
  have h3: "exact_answer (lower (strip ''yes no'')) = None" by code_simp
  have h4: "whole_input_answer indel_ratio (lower (strip ''yes no'')) = None" by code_simp
  have h5: "yes_tokens indel_ratio (lower (strip ''yes no''))
            = no_tokens indel_ratio (lower (strip ''yes no''))" by code_simp
  have c1: "is_yes contrary_ratio '' YES '' = Some True"
    using is_yes_phases[of contrary_ratio "'' YES ''" True] h1 by blast
  have c2: "is_yes indel_ratio ''yes no'' = None"
    using is_yes_phases[of indel_ratio "''yes no''" True] h2 h3 h4 h5 by blast
  from h1 h2 h3 h4 h5 c1 c2 show ?thesis by blast
qed

section \<open>Properties of the date order validator\<close>

subsection \<open>The calendar\<close>

lemma strptime_valid: "strptime_ymd s = Some dt \<Longrightarrow> valid_date dt"
  by (auto simp: strptime_ymd_def make_date_def valid_date_def
           split: option.splits prod.splits if_splits)

lemma days_in_month_pos: "28 \<le> days_in_month y m"
  by (simp add: days_in_month_def)

lemma days_before_month_Suc:
  "1 \<le> m \<Longrightarrow> days_before_month y (m + 1) = days_before_month y m + days_in_month y m"
  by (simp add: days_before_month_def upto_rec2)

lemma days_before_month_mono:
  assumes "m \<le> m'" and "1 \<le> m"
  shows "days_before_month y m \<le> days_before_month y m'"
  using assms
proof (induction m' rule: int_ge_induct)
  case base
  show ?case by simp
next
  case (step i)
  then have "days_before_month y (i + 1) = days_before_month y i + days_in_month y i"
    by (intro days_before_month_Suc) simp
  with step days_in_month_pos[of y i] show ?case by simp
qed

lemma days_before_month_13: "days_before_month y 13 = year_length y"
  by (simp add: days_before_month_def days_in_month_def year_length_def upto_rec1)

lemma days_before_month_1: "days_before_month y 1 = 0"
  by (simp add: days_before_month_def)

lemma day_of_year_bounds:
  assumes "1 \<le> m" "m \<le> 12" "1 \<le> d" "d \<le> days_in_month y m"
  shows "1 \<le> days_before_month y m + d" "days_before_month y m + d \<le> year_length y"
proof -
  have "days_before_month y 1 \<le> days_before_month y m"
    using assms by (intro days_before_month_mono) simp_all
  with assms show "1 \<le> days_before_month y m + d"
    by (simp add: days_before_month_1)
  have "days_before_month y m + d \<le> days_before_month y (m + 1)"
    using assms by (simp add: days_before_month_Suc)
  also have "\<dots> \<le> days_before_month y 13"
    using assms by (intro days_before_month_mono) simp_all
  finally show "days_before_month y m + d \<le> year_length y"
    by (simp add: days_before_month_13)
qed

lemma month_order:
  assumes "1 \<le> m" "m < m'" "d \<le> days_in_month y m" "1 \<le> d'"
  shows "days_before_month y m + d < days_before_month y m' + d'"
proof -
  have "days_before_month y m + d \<le> days_before_month y (m + 1)"
    using assms by (simp add: days_before_month_Suc)
  also have "\<dots> \<le> days_before_month y m'"
    using assms by (intro days_before_month_mono) simp_all
  finally show ?thesis using assms by simp
qed

lemma div_step:
  fixes y k :: int
  assumes "0 < k"
  shows "y div k - (y - 1) div k = (if y mod k = 0 then 1 else 0)"
proof (cases "y mod k = 0")
  case True
  have "y = k * (y div k) + y mod k" by simp
  with True have "y - 1 = k * (y div k - 1) + (k - 1)"
    by (simp add: algebra_simps)
  then have "(y - 1) div k = y div k - 1"
    by (rule int_div_pos_eq) (use assms in simp_all)
  with True show ?thesis by simp
next
  case False
  have r: "0 \<le> y mod k" "y mod k < k" using assms by simp_all
  have "y = k * (y div k) + y mod k" by simp
  then have "y - 1 = k * (y div k) + (y mod k - 1)" by simp
  then have "(y - 1) div k = y div k"
    by (rule int_div_pos_eq) (use False r in simp_all)
  with False show ?thesis by simp
qed

lemma days_before_year_Suc: "days_before_year (y + 1) = days_before_year y + year_length y"
proof -
  define q4 q100 q400 p4 p100 p400
    where "q4 = y div 4" and "q100 = y div 100" and "q400 = y div 400"
      and "p4 = (y - 1) div 4" and "p100 = (y - 1) div 100" and "p400 = (y - 1) div 400"
  define m4 m100 m400
    where "m4 \<longleftrightarrow> y mod 4 = 0" and "m100 \<longleftrightarrow> y mod 100 = 0" and "m400 \<longleftrightarrow> y mod 400 = 0"
  have a: "q4 - p4 = (if m4 then 1 else 0)"
    unfolding q4_def p4_def m4_def by (rule div_step) simp
  have b: "q100 - p100 = (if m100 then 1 else 0)"
    unfolding q100_def p100_def m100_def by (rule div_step) simp
  have c: "q400 - p400 = (if m400 then 1 else 0)"
    unfolding q400_def p400_def m400_def by (rule div_step) simp
  have d: "m100 \<longrightarrow> m4"
  proof
    assume "m100"
    then have "y mod 100 = 0" by (simp only: m100_def)
    moreover have "y mod 100 mod 4 = y mod 4" by (rule mod_mod_cancel) simp
    ultimately have "y mod 4 = 0" by (simp only: mod_0)
    then show "m4" by (simp only: m4_def)
  qed
  have e: "m400 \<longrightarrow> m100"
  proof
    assume "m400"
    then have "y mod 400 = 0" by (simp only: m400_def)
    moreover have "y mod 400 mod 100 = y mod 100" by (rule mod_mod_cancel) simp
    ultimately have "y mod 100 = 0" by (simp only: mod_0)
    then show "m100" by (simp only: m100_def)
  qed
  have leap: "is_leap y \<longleftrightarrow> m4 \<and> (\<not> m100 \<or> m400)"
    by (simp only: is_leap_def m4_def m100_def m400_def)
  have n: "days_before_year (y + 1) = y * 365 + q4 - q100 + q400"
    by (simp add: days_before_year_def q4_def q100_def q400_def)
  have p: "days_before_year y = (y * 365 - 365) + p4 - p100 + p400"
    by (simp add: days_before_year_def Let_def p4_def p100_def p400_def)
  have "(q4 - p4) - (q100 - p100) + (q400 - p400) = (if is_leap y then 1 else 0)"
    unfolding a b c leap using d e by (cases m4; cases m100; cases m400) simp_all
  then show ?thesis
    unfolding n p year_length_def by (simp split: if_splits)
qed

lemma year_length_pos: "365 \<le> year_length y"
  by (simp add: year_length_def)

lemma days_before_year_mono: "y \<le> y' \<Longrightarrow> days_before_year y \<le> days_before_year y'"
proof (induction y' rule: int_ge_induct)
  case base
  show ?case by simp
next
  case (step i)
  with year_length_pos[of i] show ?case by (simp add: days_before_year_Suc)
qed

lemma year_order:
  assumes "y < y'"
  shows "days_before_year y + year_length y \<le> days_before_year y'"
proof -
  have "days_before_year (y + 1) \<le> days_before_year y'"
    using assms by (intro days_before_year_mono) simp
  then show ?thesis by (simp add: days_before_year_Suc)
qed

lemma date_less_imp_ordinal:
  assumes "valid_date a" "valid_date b" "date_less a b"
  shows "toordinal a < toordinal b"
proof -
  obtain ya ma da where a: "a = Date ya ma da" by (cases a)
  obtain yb mb db where b: "b = Date yb mb db" by (cases b)
  from assms(1,2) have va: "1 \<le> ma" "ma \<le> 12" "1 \<le> da" "da \<le> days_in_month ya ma"
    and vb: "1 \<le> mb" "mb \<le> 12" "1 \<le> db" "db \<le> days_in_month yb mb"
    by (simp_all add: valid_date_def a b)
  from assms(3) consider (y) "ya < yb" | (m) "ya = yb" "ma < mb" | (d) "ya = yb" "ma = mb" "da < db"
    by (auto simp: date_less_def a b)
  then show ?thesis
  proof cases
    case y
    have "days_before_year ya + (days_before_month ya ma + da) \<le> days_before_year ya + year_length ya"
      using day_of_year_bounds(2)[OF va] by simp
    also have "\<dots> \<le> days_before_year yb" using y by (rule year_order)
    also have "\<dots> < days_before_year yb + (days_before_month yb mb + db)"
      using day_of_year_bounds(1)[OF vb] by simp
    finally show ?thesis by (simp add: toordinal_def a b)
  next
    case m
    with month_order[OF va(1) m(2) va(4) vb(3)] show ?thesis
      by (simp add: toordinal_def a b)
  next
    case d
    then show ?thesis by (simp add: toordinal_def a b)
  qed
qed

lemma date_less_total:
  "date_less a b \<or> a = b \<or> date_less b a"
  by (cases a; cases b) (auto simp: date_less_def)

lemma date_less_iff_ordinal:
  assumes "valid_date a" "valid_date b"
  shows "date_less a b \<longleftrightarrow> toordinal a < toordinal b"
proof
  assume "date_less a b"
  with assms show "toordinal a < toordinal b" by (rule date_less_imp_ordinal)
next
  assume lt: "toordinal a < toordinal b"
  from date_less_total[of a b] show "date_less a b"
  proof (elim disjE)
    assume "a = b" with lt show ?thesis by simp
  next
    assume "date_less b a"
    with assms have "toordinal b < toordinal a" by (intro date_less_imp_ordinal)
    with lt show ?thesis by simp
  qed
qed

subsection \<open>The validator\<close>

lemma validate_date_order_scenarios:
  "validate_date_order ''2024-01-20'' ''2024-01-21''"
  "\<not> validate_date_order ''2024-01-20'' ''2024-01-18''"
  "\<not> validate_date_order ''2024-01-20'' ''2024-01-20''"
  "\<not> validate_date_order ''2024-01-20'' ''tomorrow''"
  "\<not> validate_date_order ''2023-02-29'' ''2024-01-20''"
  "validate_date_order ''2023-12-31'' ''2024-01-01''"
  "validate_date_order ''2024-1-5'' ''2024-1-6''"
  by code_simp+

lemma char_eq_code: "(c = d) \<longleftrightarrow> (of_char c :: nat) = of_char d"
  by (auto dest: injD[OF inj_of_char])

lemma month_alts:
  assumes "is_digit m1" "is_digit m2"
  shows "concat (map (\<lambda>(m, r2). case match_seq [(=) CHR ''-''] r2 of None \<Rightarrow> []
                     | Some (x, r3) \<Rightarrow> F m r3)
           (match_alts month_re (m1 # m2 # CHR ''-'' # r)))
         = (if 1 \<le> int_of_digits [m1, m2] \<and> int_of_digits [m1, m2] \<le> 12 then F [m1, m2] r else [])"
proof -
  define a b where "a = (of_char m1 :: nat)" and "b = (of_char m2 :: nat)"
  from assms have r: "48 \<le> a" "a \<le> 57" "48 \<le> b" "b \<le> 57"
    by (simp_all add: is_digit_def a_def b_def Let_def)
  have dash: "m2 \<noteq> CHR ''-''" using r by (auto simp: b_def)
  have v: "int_of_digits [m1, m2] = 10 * (int a - 48) + (int b - 48)"
    by (simp add: int_of_digits_def digit_val_def a_def b_def)
  show ?thesis
    unfolding v using r dash
    by (auto simp: match_alts_def month_re_def map_filter_simps in_range_def char_eq_code
          a_def [symmetric] b_def [symmetric])
qed

lemma day_alts:
  assumes "is_digit d1" "is_digit d2"
  shows "match_alts day_re [d1, d2]
         = (if 1 \<le> int_of_digits [d1, d2] \<and> int_of_digits [d1, d2] \<le> 31 then [([d1, d2], [])] else [])
           @ (if d1 \<noteq> CHR ''0'' then [([d1], [d2])] else [])"
proof -
  define a b where "a = (of_char d1 :: nat)" and "b = (of_char d2 :: nat)"
  from assms have r: "48 \<le> a" "a \<le> 57" "48 \<le> b" "b \<le> 57"
    by (simp_all add: is_digit_def a_def b_def Let_def)
  have v: "int_of_digits [d1, d2] = 10 * (int a - 48) + (int b - 48)"
    by (simp add: int_of_digits_def digit_val_def a_def b_def)
  show ?thesis
    unfolding v using r assms(2)
    by (auto simp: match_alts_def day_re_def map_filter_simps in_range_def char_eq_code
          a_def [symmetric] b_def [symmetric])
qed

lemma days_in_month_le: "days_in_month y m \<le> 31"
  by (simp add: days_in_month_def)

lemma strptime_iso_form:
  assumes "is_digit y1" "is_digit y2" "is_digit y3" "is_digit y4"
    and "is_digit m1" "is_digit m2" "is_digit d1" "is_digit d2"
  shows "strptime_ymd [y1, y2, y3, y4, CHR ''-'', m1, m2, CHR ''-'', d1, d2]
         = make_date (int_of_digits [y1, y2, y3, y4]) (int_of_digits [m1, m2]) (int_of_digits [d1, d2])"
proof -
  let ?Y = "int_of_digits [y1, y2, y3, y4]" and ?M = "int_of_digits [m1, m2]"
    and ?D = "int_of_digits [d1, d2]"
  have year: "match_seq (year_re @ [(=) CHR ''-''])
                [y1, y2, y3, y4, CHR ''-'', m1, m2, CHR ''-'', d1, d2]
              = Some ([y1, y2, y3, y4, CHR ''-''], [m1, m2, CHR ''-'', d1, d2])"
    using assms by (simp add: year_re_def)
  have m: "match_ymd [y1, y2, y3, y4, CHR ''-'', m1, m2, CHR ''-'', d1, d2]
           = (case (if 1 \<le> ?M \<and> ?M \<le> 12
                    then map (\<lambda>(d, r4). ([y1, y2, y3, y4], [m1, m2], d, r4))
                           (match_alts day_re [d1, d2])
                    else []) of
                [] \<Rightarrow> None | found # _ \<Rightarrow> Some found)"
    unfolding match_ymd_def year
    by (simp add: month_alts[OF assms(5,6)])
  have dim: "days_in_month ?Y ?M \<le> 31" by (rule days_in_month_le)
  show ?thesis
  proof (cases "1 \<le> ?M \<and> ?M \<le> 12")
    case False
    then show ?thesis
      unfolding strptime_ymd_def m by (auto simp: make_date_def)
  next
    case True
    show ?thesis
    proof (cases "1 \<le> ?D \<and> ?D \<le> 31")
      case d: True
      with True assms(7,8) show ?thesis
        unfolding strptime_ymd_def m day_alts[OF assms(7,8)] by simp
    next
      case d: False
      with dim have none: "make_date ?Y ?M ?D = None"
        by (auto simp: make_date_def)
      from d have da: "match_alts day_re [d1, d2]
                       = (if d1 \<noteq> CHR ''0'' then [([d1], [d2])] else [])"
        unfolding day_alts[OF assms(7,8)] by simp
      have "strptime_ymd [y1, y2, y3, y4, CHR ''-'', m1, m2, CHR ''-'', d1, d2] = None"
        unfolding strptime_ymd_def m da using True by simp
      with none show ?thesis by simp
    qed
  qed
qed

lemma strptime_iso:
  assumes "iso_form s"
  shows "strptime_ymd s = parse_iso s"
proof -
  from assms obtain y1 y2 y3 y4 h1 m1 m2 h2 d1 d2
    where s: "s = [y1, y2, y3, y4, h1, m1, m2, h2, d1, d2]"
    by (cases s rule: iso_form.cases) simp_all
  from assms have dig: "is_digit y1" "is_digit y2" "is_digit y3" "is_digit y4"
      "is_digit m1" "is_digit m2" "is_digit d1" "is_digit d2"
    and h: "h1 = CHR ''-''" "h2 = CHR ''-''"
    unfolding s by simp_all
  show ?thesis unfolding s h strptime_iso_form[OF dig] using dig by simp
qed

lemma validate_date_order_ordinal:
  "validate_date_order d1 d2 \<longleftrightarrow>
     (\<exists>checkin checkout. strptime_ymd d1 = Some checkin \<and> strptime_ymd d2 = Some checkout
        \<and> toordinal checkin < toordinal checkout)"
proof (cases "strptime_ymd d1")
  case None
  then show ?thesis by (simp add: validate_date_order_def)
next
  case a: (Some a)
  show ?thesis
  proof (cases "strptime_ymd d2")
    case None
    with a show ?thesis by (simp add: validate_date_order_def)
  next
    case b: (Some b)
    from a b have "date_less a b \<longleftrightarrow> toordinal a < toordinal b"
      by (intro date_less_iff_ordinal strptime_valid)
    with a b show ?thesis by (simp add: validate_date_order_def)
  qed
qed

text \<open>
  C4, as amended. For every pair of strings, \<open>validate_date_order\<close> is true iff both parse
  as calendar dates under \<open>strptime\<close> with the format \<open>%Y-%m-%d\<close> and the second date is
  strictly later than the first in chronological position (the day count \<open>toordinal\<close>).
  The function is total: equal dates, reversed dates and a string that fails to parse all give
  false. For two strings in the ISO form \<open>YYYY-MM-DD\<close> this is the validator as the
  specification words it. \<open>strptime\<close> reads more than the ISO form: a month or a day of one
  digit, and a day written as a space and a digit, parse as well, so the validator accepts the
  pair \<open>2024-1-5\<close>, \<open>2024-1-6\<close>, neither of which is in the form \<open>YYYY-MM-DD\<close>.
\<close>

theorem validate_date_order_iff:
  "(validate_date_order d1 d2 \<longleftrightarrow>
     (\<exists>checkin checkout. strptime_ymd d1 = Some checkin \<and> strptime_ymd d2 = Some checkout
        \<and> toordinal checkin < toordinal checkout))
   \<and> (iso_form d1 \<and> iso_form d2 \<longrightarrow>
        validate_date_order d1 d2 = validate_date_order_spec d1 d2)"
proof (intro conjI impI)
  show "validate_date_order d1 d2 \<longleftrightarrow>
     (\<exists>checkin checkout. strptime_ymd d1 = Some checkin \<and> strptime_ymd d2 = Some checkout
        \<and> toordinal checkin < toordinal checkout)"
    by (rule validate_date_order_ordinal)
next
  assume "iso_form d1 \<and> iso_form d2"
  then have "strptime_ymd d1 = parse_iso d1" "strptime_ymd d2 = parse_iso d2"
    by (simp_all add: strptime_iso)
  then show "validate_date_order d1 d2 = validate_date_order_spec d1 d2"
    unfolding validate_date_order_ordinal validate_date_order_spec_def
    by (auto split: option.splits)
qed

theorem validate_date_order_iff_witness:
  "iso_form ''2024-01-20'' \<and> iso_form ''2024-01-18''
   \<and> validate_date_order ''2024-01-18'' ''2024-01-20''
   \<and> validate_date_order_spec ''2024-01-18'' ''2024-01-20''
   \<and> \<not> validate_date_order ''2024-01-20'' ''2024-01-18''
   \<and> \<not> validate_date_order_spec ''2024-01-20'' ''2024-01-18''"
proof -
  have f: "iso_form ''2024-01-20''" "iso_form ''2024-01-18''" by code_simp+
  have s: "validate_date_order_spec ''2024-01-18'' ''2024-01-20''"
    "\<not> validate_date_order_spec ''2024-01-20'' ''2024-01-18''"
    by code_simp+
  from validate_date_order_iff[of "''2024-01-18''" "''2024-01-20''"] f s(1)
  have 1: "validate_date_order ''2024-01-18'' ''2024-01-20''" by blast
  from validate_date_order_iff[of "''2024-01-20''" "''2024-01-18''"] f s(2)
  have 2: "\<not> validate_date_order ''2024-01-20'' ''2024-01-18''" by blast
  from f s 1 2 show ?thesis by blast
qed

theorem validate_date_order_unpadded_counterexample:
  "validate_date_order ''2024-1-5'' ''2024-1-6''
     \<noteq> validate_date_order_spec ''2024-1-5'' ''2024-1-6''"
  by code_simp

section \<open>Properties of the dialogue step\<close>

lemma demo_after_6: "demo_after 6 = demo_confirm"
  by code_simp

lemma demo_sink: "save_booking_to_db demo_env ''demo'' demo_data = Inr (Some demo_record)"
  by code_simp

lemma failing_sink: "save_booking_to_db failing_env ''demo'' demo_data = Inl DatabaseError"
  by code_simp

lemma step_confirm:
  "step s = ''confirm'' \<Longrightarrow>
   process_conversation_step e s m =
     (let response = strip (lower m) in
         if response \<in> set [''confirm'', ''yes'', ''book'', ''book it'', ''proceed''] then
           (case save_booking_to_db e (case session_id s of None \<Rightarrow> [] | Some sid \<Rightarrow> sid) (data s) of
              Inl err \<Rightarrow> (Inl err, s)
            | Inr None \<Rightarrow> (Inl (KeyError ''id''), s\<lparr>step := ''complete''\<rparr>)
            | Inr (Some booking_record) \<Rightarrow>
                (Inr \<lparr>reply = party @ '' Booking confirmed! Your reservation ID is #''
                          @ str_int (rec_id booking_record) @ ''. Thank you for choosing our hotel!'',
                       complete = True, booking = Some booking_record\<rparr>,
                 s\<lparr>step := ''complete''\<rparr>))
         else if response \<in> set [''cancel'', ''no'', ''restart'', ''start over''] then
           (Inr (say ''Booking cancelled. Let's start over! What's your name?''),
            s\<lparr>step := ''name'', data := empty_data\<rparr>)
         else
           (Inr (say ''Please type 'confirm' to complete your booking or 'cancel' to start over.''), s))"
  by (simp add: process_conversation_step_def Let_def)

text \<open>
  C1. In the \<open>confirm\<close> state the lowercased, trimmed message is read as exactly one of
  three intents. In the affirmative set, with the sink returning a record for the accumulated
  data, the step becomes \<open>complete\<close>, the reply contains the record's identifier and
  \<open>complete\<close> is true. In the negative set, the step becomes \<open>name\<close> and the data
  becomes empty. For any other message the session is unchanged and \<open>complete\<close> is false.
\<close>

theorem confirm_intents:
  assumes "step s = ''confirm''"
  shows "(strip (lower m) \<in> set [''confirm'', ''yes'', ''book'', ''book it'', ''proceed'']
          \<and> save_booking_to_db e (case session_id s of None \<Rightarrow> [] | Some sid \<Rightarrow> sid) (data s) = Inr (Some r)
          \<longrightarrow> (\<exists>resp. process_conversation_step e s m = (Inr resp, s\<lparr>step := ''complete''\<rparr>)
                \<and> sublist (str_int (rec_id r)) (reply resp) \<and> complete resp \<and> booking resp = Some r))
       \<and> (strip (lower m) \<in> set [''cancel'', ''no'', ''restart'', ''start over'']
          \<longrightarrow> (\<exists>resp. process_conversation_step e s m = (Inr resp, s\<lparr>step := ''name'', data := empty_data\<rparr>)
                \<and> \<not> complete resp))
       \<and> (strip (lower m) \<notin> set [''confirm'', ''yes'', ''book'', ''book it'', ''proceed'']
          \<and> strip (lower m) \<notin> set [''cancel'', ''no'', ''restart'', ''start over'']
          \<longrightarrow> (\<exists>resp. process_conversation_step e s m = (Inr resp, s) \<and> \<not> complete resp))"
proof (intro conjI impI)
  assume a: "strip (lower m) \<in> set [''confirm'', ''yes'', ''book'', ''book it'', ''proceed'']
          \<and> save_booking_to_db e (case session_id s of None \<Rightarrow> [] | Some sid \<Rightarrow> sid) (data s) = Inr (Some r)"
  have "sublist (str_int (rec_id r))
          (party @ '' Booking confirmed! Your reservation ID is #''
             @ str_int (rec_id r) @ ''. Thank you for choosing our hotel!'')"
    by (metis append.assoc sublist_appendI)
  with a show "\<exists>resp. process_conversation_step e s m = (Inr resp, s\<lparr>step := ''complete''\<rparr>)
                \<and> sublist (str_int (rec_id r)) (reply resp) \<and> complete resp \<and> booking resp = Some r"
    by (simp add: step_confirm[OF assms] Let_def)
next
  assume "strip (lower m) \<in> set [''cancel'', ''no'', ''restart'', ''start over'']"
  then show "\<exists>resp. process_conversation_step e s m = (Inr resp, s\<lparr>step := ''name'', data := empty_data\<rparr>)
                \<and> \<not> complete resp"
    by (auto simp: step_confirm[OF assms] Let_def say_def)
next
  assume "strip (lower m) \<notin> set [''confirm'', ''yes'', ''book'', ''book it'', ''proceed'']
          \<and> strip (lower m) \<notin> set [''cancel'', ''no'', ''restart'', ''start over'']"
  then show "\<exists>resp. process_conversation_step e s m = (Inr resp, s) \<and> \<not> complete resp"
    by (simp add: step_confirm[OF assms] Let_def say_def)
qed

theorem confirm_intents_witness:
  "step demo_confirm = ''confirm''
   \<and> (\<exists>resp. process_conversation_step demo_env demo_confirm '' Confirm''
                = (Inr resp, demo_confirm\<lparr>step := ''complete''\<rparr>)
        \<and> sublist ''7'' (reply resp) \<and> complete resp \<and> booking resp = Some demo_record)
   \<and> (\<exists>resp. process_conversation_step demo_env demo_confirm ''Cancel''
                = (Inr resp, demo_confirm\<lparr>step := ''name'', data := empty_data\<rparr>)
        \<and> \<not> complete resp)
   \<and> (\<exists>resp. process_conversation_step demo_env demo_confirm ''yes please''
                = (Inr resp, demo_confirm) \<and> \<not> complete resp)"
proof -
  have h: "step demo_confirm = ''confirm''" by (simp add: demo_confirm_def)
  have sid: "(case session_id demo_confirm of None \<Rightarrow> [] | Some sid \<Rightarrow> sid) = ''demo''"
    and d: "data demo_confirm = demo_data"
    by (simp_all add: demo_confirm_def)
  have a: "strip (lower '' Confirm'') \<in> set [''confirm'', ''yes'', ''book'', ''book it'', ''proceed'']"
    by code_simp
  have c: "strip (lower ''Cancel'') \<in> set [''cancel'', ''no'', ''restart'', ''start over'']"
    by code_simp
  have o: "strip (lower ''yes please'') \<notin> set [''confirm'', ''yes'', ''book'', ''book it'', ''proceed'']
           \<and> strip (lower ''yes please'') \<notin> set [''cancel'', ''no'', ''restart'', ''start over'']"
    by code_simp
  have i: "str_int (rec_id demo_record) = ''7''" by code_simp
  note t = confirm_intents[OF h]
  from t[of "'' Confirm''" demo_env demo_record] a demo_sink
  have 1: "\<exists>resp. process_conversation_step demo_env demo_confirm '' Confirm''
                = (Inr resp, demo_confirm\<lparr>step := ''complete''\<rparr>)
        \<and> sublist ''7'' (reply resp) \<and> complete resp \<and> booking resp = Some demo_record"
    unfolding sid d i by blast
  from t[of "''Cancel''" demo_env demo_record] c
  have 2: "\<exists>resp. process_conversation_step demo_env demo_confirm ''Cancel''
                = (Inr resp, demo_confirm\<lparr>step := ''name'', data := empty_data\<rparr>)
        \<and> \<not> complete resp"
    by blast
  from t[of "''yes please''" demo_env demo_record] o
  have 3: "\<exists>resp. process_conversation_step demo_env demo_confirm ''yes please''
                = (Inr resp, demo_confirm) \<and> \<not> complete resp"
    by blast
  from h 1 2 3 show ?thesis by blast
qed

text \<open>
  C3. If \<open>save_booking_to_db\<close> raises while an affirmative message is handled in the
  \<open>confirm\<close> state, the step raises the same error and leaves the session as it was, step
  \<open>confirm\<close> and data intact; the same message on a later turn, with the sink working,
  completes the booking without any field being entered again.
\<close>

theorem sink_failure_keeps_session:
  assumes "step s = ''confirm''"
    and "strip (lower m) \<in> set [''confirm'', ''yes'', ''book'', ''book it'', ''proceed'']"
    and "save_booking_to_db e (case session_id s of None \<Rightarrow> [] | Some sid \<Rightarrow> sid) (data s) = Inl err"
  shows "process_conversation_step e s m = (Inl err, s)
       \<and> (\<forall>e' r. save_booking_to_db e' (case session_id s of None \<Rightarrow> [] | Some sid \<Rightarrow> sid) (data s) = Inr (Some r)
            \<longrightarrow> process_conversation_step e' (snd (process_conversation_step e s m)) m
                  = (Inr \<lparr>reply = party @ '' Booking confirmed! Your reservation ID is #''
                          @ str_int (rec_id r) @ ''. Thank you for choosing our hotel!'',
                       complete = True, booking = Some r\<rparr>,
                     s\<lparr>step := ''complete''\<rparr>))"
  using assms by (simp add: step_confirm Let_def)

theorem sink_failure_keeps_session_witness:
  "step demo_confirm = ''confirm''
   \<and> save_booking_to_db failing_env ''demo'' (data demo_confirm) = Inl DatabaseError
   \<and> process_conversation_step failing_env demo_confirm ''confirm'' = (Inl DatabaseError, demo_confirm)
   \<and> step (snd (process_conversation_step demo_env
         (snd (process_conversation_step failing_env demo_confirm ''confirm'')) ''confirm'')) = ''complete''"
proof -
  have h: "step demo_confirm = ''confirm''" by (simp add: demo_confirm_def)
  have sid: "(case session_id demo_confirm of None \<Rightarrow> [] | Some sid \<Rightarrow> sid) = ''demo''"
    and d: "data demo_confirm = demo_data"
    by (simp_all add: demo_confirm_def)
  have a: "strip (lower ''confirm'') \<in> set [''confirm'', ''yes'', ''book'', ''book it'', ''proceed'']"
    by code_simp
  have f: "save_booking_to_db failing_env (case session_id demo_confirm of None \<Rightarrow> [] | Some sid \<Rightarrow> sid)
             (data demo_confirm) = Inl DatabaseError"
    unfolding sid d by (rule failing_sink)
  note t = sink_failure_keeps_session[OF h a f]
  from t have 1: "process_conversation_step failing_env demo_confirm ''confirm'' = (Inl DatabaseError, demo_confirm)"
    by blast
  from t demo_sink
  have "process_conversation_step demo_env
          (snd (process_conversation_step failing_env demo_confirm ''confirm'')) ''confirm''
        = (Inr \<lparr>reply = party @ '' Booking confirmed! Your reservation ID is #''
                          @ str_int (rec_id demo_record) @ ''. Thank you for choosing our hotel!'',
                 complete = True, booking = Some demo_record\<rparr>,
           demo_confirm\<lparr>step := ''complete''\<rparr>)"
    unfolding sid d by blast
  then have 2: "step (snd (process_conversation_step demo_env
         (snd (process_conversation_step failing_env demo_confirm ''confirm'')) ''confirm'')) = ''complete''"
    by simp
  from h f 1 2 show ?thesis unfolding sid d by blast
qed

text \<open>
  C2. In each data-collecting state (\<open>name\<close>, \<open>checkin\<close>, \<open>checkout\<close>,
  \<open>guests\<close>, \<open>breakfast\<close>) an absent extractor result leaves the session unchanged
  and the reply is a re-prompt. In \<open>checkout\<close> the same holds when the date parses but
  \<open>validate_date_order\<close> rejects it against the stored check-in date, and the re-prompt
  names that date.
\<close>

theorem extractor_failure_keeps_session:
  "(step s = ''name'' \<and> extract_name e m = None \<longrightarrow>
      process_conversation_step e s m =
        (Inr (say ''I didn't catch your name. Could you please tell me your name?''), s))
   \<and> (step s = ''checkin'' \<and> parse_date e m = None \<longrightarrow>
      process_conversation_step e s m =
        (Inr (say ''I couldn't understand the date. Please provide your check-in date (e.g., 'tomorrow', 'January 15th', or '2024-01-15')''), s))
   \<and> (step s = ''checkout'' \<and> parse_date e m = None \<longrightarrow>
      process_conversation_step e s m =
        (Inr (say ''I couldn't understand the check-out date. Please provide a valid date.''), s))
   \<and> (step s = ''guests'' \<and> parse_guests (fuzz_ratio e) m = None \<longrightarrow>
      process_conversation_step e s m =
        (Inr (say ''Please tell me the number of guests (1-10 people).''), s))
   \<and> (step s = ''breakfast'' \<and> is_yes (fuzz_ratio e) m = None \<longrightarrow>
      process_conversation_step e s m =
        (Inr (say ''Please answer yes or no for breakfast preference.''), s))
   \<and> (step s = ''checkout'' \<and> parse_date e m = Some co \<and> co \<noteq> []
        \<and> checkin_date (data s) = Some ci \<and> \<not> validate_date_order ci co \<longrightarrow>
      process_conversation_step e s m =
        (Inr (say (''Check-out date must be after check-in date ('' @ ci
                   @ ''). Please provide a later check-out date.'')), s)
      \<and> sublist ci (reply (say (''Check-out date must be after check-in date ('' @ ci
                   @ ''). Please provide a later check-out date.''))))"
proof (intro conjI impI)
  show "sublist ci (reply (say (''Check-out date must be after check-in date ('' @ ci
                   @ ''). Please provide a later check-out date.'')))"
    unfolding say_def by (simp only: response.simps) (rule sublist_appendI)
qed (simp_all add: process_conversation_step_def)

theorem extractor_failure_keeps_session_witness:
  "process_conversation_step demo_env (demo_after 0) ''hello'' =
     (Inr (say ''I didn't catch your name. Could you please tell me your name?''), demo_after 0)
   \<and> snd (process_conversation_step demo_env (demo_after 1) ''whenever'') = demo_after 1
   \<and> snd (process_conversation_step demo_env (demo_after 2) ''whenever'') = demo_after 2
   \<and> snd (process_conversation_step demo_env (demo_after 3) ''many'') = demo_after 3
   \<and> snd (process_conversation_step demo_env (demo_after 4) ''maybe'') = demo_after 4
   \<and> checkin_date (data (demo_after 2)) = Some ''2024-01-20''
   \<and> \<not> validate_date_order ''2024-01-20'' ''2024-01-18''
   \<and> process_conversation_step demo_env (demo_after 2) ''2024-01-18'' =
       (Inr (say ''Check-out date must be after check-in date (2024-01-20). Please provide a later check-out date.''),
        demo_after 2)"
proof -
  have s0: "step (demo_after 0) = ''name''" and s1: "step (demo_after 1) = ''checkin''"
    and s2: "step (demo_after 2) = ''checkout''" and s3: "step (demo_after 3) = ''guests''"
    and s4: "step (demo_after 4) = ''breakfast''"
    by code_simp+
  have e0: "extract_name demo_env ''hello'' = None"
    and e1: "parse_date demo_env ''whenever'' = None"
    and e3: "parse_guests (fuzz_ratio demo_env) ''many'' = None"
    and e4: "is_yes (fuzz_ratio demo_env) ''maybe'' = None"
    by code_simp+
  have o1: "parse_date demo_env ''2024-01-18'' = Some ''2024-01-18''" by code_simp
  have o2: "checkin_date (data (demo_after 2)) = Some ''2024-01-20''" by code_simp
  have o3: "\<not> validate_date_order ''2024-01-20'' ''2024-01-18''" by code_simp
  have o4: "''2024-01-18'' \<noteq> []" by simp
  note t = extractor_failure_keeps_session
  from t[of "demo_after 0" demo_env "''hello''"] s0 e0
  have 0: "process_conversation_step demo_env (demo_after 0) ''hello'' =
     (Inr (say ''I didn't catch your name. Could you please tell me your name?''), demo_after 0)"
    by blast
  from t[of "demo_after 1" demo_env "''whenever''"] s1 e1
  have 1: "snd (process_conversation_step demo_env (demo_after 1) ''whenever'') = demo_after 1"
    by simp
  from t[of "demo_after 2" demo_env "''whenever''"] s2 e1
  have 2: "snd (process_conversation_step demo_env (demo_after 2) ''whenever'') = demo_after 2"
    by simp
  from t[of "demo_after 3" demo_env "''many''"] s3 e3
  have 3: "snd (process_conversation_step demo_env (demo_after 3) ''many'') = demo_after 3"
    by simp
  from t[of "demo_after 4" demo_env "''maybe''"] s4 e4
  have 4: "snd (process_conversation_step demo_env (demo_after 4) ''maybe'') = demo_after 4"
    by simp
  from t[of "demo_after 2" demo_env "''2024-01-18''" "''2024-01-18''" "''2024-01-20''"] s2 o1 o2 o3 o4
  have 5: "process_conversation_step demo_env (demo_after 2) ''2024-01-18'' =
       (Inr (say ''Check-out date must be after check-in date (2024-01-20). Please provide a later check-out date.''),
        demo_after 2)"
    by simp
  from 0 1 2 3 4 5 o2 o3 show ?thesis by blast
qed

subsection \<open>The session after one turn, step by step\<close>

lemma step_name:
  "step s = ''name'' \<Longrightarrow>
   snd (process_conversation_step e s m) =
     (case extract_name e m of
        None \<Rightarrow> s
      | Some n \<Rightarrow> if n = [] then s else s\<lparr>data := (data s)\<lparr>name := Some n\<rparr>, step := ''checkin''\<rparr>)"
  by (simp add: process_conversation_step_def split: option.splits)

lemma step_checkin:
  "step s = ''checkin'' \<Longrightarrow>
   snd (process_conversation_step e s m) =
     (case parse_date e m of
        None \<Rightarrow> s
      | Some ci \<Rightarrow> if ci = [] then s
                   else s\<lparr>data := (data s)\<lparr>checkin_date := Some ci\<rparr>, step := ''checkout''\<rparr>)"
  by (simp add: process_conversation_step_def split: option.splits)

lemma step_checkout:
  "step s = ''checkout'' \<Longrightarrow>
   snd (process_conversation_step e s m) =
     (case parse_date e m of
        None \<Rightarrow> s
      | Some co \<Rightarrow>
          if co = [] then s
          else (case checkin_date (data s) of
                  None \<Rightarrow> s
                | Some ci \<Rightarrow>
                    if validate_date_order ci co
                    then s\<lparr>data := (data s)\<lparr>checkout_date := Some co\<rparr>, step := ''guests''\<rparr>
                    else s))"
  by (simp add: process_conversation_step_def split: option.splits)

lemma step_guests:
  "step s = ''guests'' \<Longrightarrow>
   snd (process_conversation_step e s m) =
     (case parse_guests (fuzz_ratio e) m of
        None \<Rightarrow> s
      | Some g \<Rightarrow> if g = 0 then s
                  else s\<lparr>data := (data s)\<lparr>guests := Some g\<rparr>, step := ''breakfast''\<rparr>)"
  by (simp add: process_conversation_step_def split: option.splits)

lemma step_breakfast:
  "step s = ''breakfast'' \<Longrightarrow>
   snd (process_conversation_step e s m) =
     (case is_yes (fuzz_ratio e) m of
        None \<Rightarrow> s
      | Some b \<Rightarrow> s\<lparr>data := (data s)\<lparr>breakfast := Some b\<rparr>, step := ''payment''\<rparr>)"
  by (simp add: process_conversation_step_def split: option.splits)

lemma step_payment:
  "step s = ''payment'' \<Longrightarrow>
   snd (process_conversation_step e s m) =
     s\<lparr>data := (data s)\<lparr>payment_method := Some (payment_value (fuzz_ratio e) (str_title e) m)\<rparr>,
       step := ''confirm''\<rparr>"
  by (simp add: process_conversation_step_def Let_def split: sum.splits)

lemma step_confirm_state:
  "step s = ''confirm'' \<Longrightarrow>
   snd (process_conversation_step e s m) = s
   \<or> snd (process_conversation_step e s m) = s\<lparr>step := ''complete''\<rparr>
   \<or> snd (process_conversation_step e s m) = s\<lparr>step := ''name'', data := empty_data\<rparr>"
  by (simp add: step_confirm Let_def split: sum.splits option.splits)

lemma step_complete:
  "step s = ''complete'' \<Longrightarrow>
   snd (process_conversation_step e s m) = s\<lparr>step := ''name'', data := empty_data\<rparr>"
  by (simp add: process_conversation_step_def)

lemma session_inv_step:
  "session_inv s \<Longrightarrow>
   step s = ''name'' \<or> step s = ''checkin'' \<or> step s = ''checkout'' \<or> step s = ''guests''
   \<or> step s = ''breakfast'' \<or> step s = ''payment'' \<or> step s = ''confirm''
   \<or> step s = ''complete''"
  by (auto simp: session_inv_def fields_at_step_def split: if_splits)

lemma session_inv_fresh: "session_inv ((new_session now)\<lparr>session_id := sid\<rparr>)"
  by (simp add: session_inv_def new_session_def fields_at_step_def fields_present_def empty_data_def)

lemma session_inv_reset: "session_inv (s\<lparr>step := ''name'', data := empty_data\<rparr>)"
  by (simp add: session_inv_def fields_at_step_def fields_present_def empty_data_def)

lemma session_inv_turn:
  assumes "session_inv s"
  shows "session_inv (snd (process_conversation_step e s m))"
  using session_inv_step[OF assms]
proof (elim disjE)
  assume st: "step s = ''name''"
  with assms show ?thesis
    by (simp add: step_name session_inv_def fields_at_step_def fields_present_def
             split: option.splits)
next
  assume st: "step s = ''checkin''"
  with assms show ?thesis
    by (simp add: step_checkin session_inv_def fields_at_step_def fields_present_def
             split: option.splits)
next
  assume st: "step s = ''checkout''"
  with assms show ?thesis
    by (auto simp: step_checkout session_inv_def fields_at_step_def fields_present_def
             split: option.splits)
next
  assume st: "step s = ''guests''"
  with assms show ?thesis
    by (simp add: step_guests session_inv_def fields_at_step_def fields_present_def
             split: option.splits)
next
  assume st: "step s = ''breakfast''"
  with assms show ?thesis
    by (simp add: step_breakfast session_inv_def fields_at_step_def fields_present_def
             split: option.splits)
next
  assume st: "step s = ''payment''"
  with assms show ?thesis
    by (simp add: step_payment session_inv_def fields_at_step_def fields_present_def)
next
  assume st: "step s = ''confirm''"
  from assms st have c: "session_inv (s\<lparr>step := ''complete''\<rparr>)"
    by (simp add: session_inv_def fields_at_step_def)
  from step_confirm_state[OF st, of e m] assms c session_inv_reset[of s] show ?thesis
    by (elim disjE) simp_all
next
  assume st: "step s = ''complete''"
  then show ?thesis by (simp add: step_complete session_inv_reset)
qed

lemma reachable_inv: "reachable s \<Longrightarrow> session_inv s"
  by (induction rule: reachable.induct) (simp_all add: session_inv_fresh session_inv_turn)

lemma session_inv_in_order: "session_inv s \<Longrightarrow> populated_in_order (fields_present (data s))"
  by (auto simp: session_inv_def fields_at_step_def split: if_splits)

lemma keeps_fields_refl: "keeps_fields d d"
  by (simp add: keeps_fields_def kept_def split: option.splits)

lemma session_inv_keeps:
  assumes "session_inv s"
  shows "keeps_fields (data s) (data (snd (process_conversation_step e s m)))
         \<or> (data (snd (process_conversation_step e s m)) = empty_data
            \<and> step (snd (process_conversation_step e s m)) = ''name'')"
  using session_inv_step[OF assms]
proof (elim disjE)
  assume st: "step s = ''name''"
  with assms show ?thesis
    by (simp add: step_name session_inv_def fields_at_step_def fields_present_def
          keeps_fields_def kept_def split: option.splits)
next
  assume st: "step s = ''checkin''"
  with assms show ?thesis
    by (simp add: step_checkin session_inv_def fields_at_step_def fields_present_def
          keeps_fields_def kept_def split: option.splits)
next
  assume st: "step s = ''checkout''"
  with assms show ?thesis
    by (auto simp: step_checkout session_inv_def fields_at_step_def fields_present_def
          keeps_fields_def kept_def split: option.splits)
next
  assume st: "step s = ''guests''"
  with assms show ?thesis
    by (simp add: step_guests session_inv_def fields_at_step_def fields_present_def
          keeps_fields_def kept_def split: option.splits)
next
  assume st: "step s = ''breakfast''"
  with assms show ?thesis
    by (simp add: step_breakfast session_inv_def fields_at_step_def fields_present_def
          keeps_fields_def kept_def split: option.splits)
next
  assume st: "step s = ''payment''"
  with assms show ?thesis
    by (simp add: step_payment session_inv_def fields_at_step_def fields_present_def
          keeps_fields_def kept_def split: option.splits)
next
  assume st: "step s = ''confirm''"
  from step_confirm_state[OF st, of e m] show ?thesis
    by (elim disjE) (simp_all add: keeps_fields_refl)
next
  assume st: "step s = ''complete''"
  then show ?thesis by (simp add: step_complete)
qed

lemma reachable_run_turns: "reachable s \<Longrightarrow> reachable (run_turns e s ms)"
  by (induction ms arbitrary: s) (simp_all add: reachable.turn)

lemma reachable_demo_after: "reachable (demo_after k)"
  unfolding demo_after_def demo_start_def by (intro reachable_run_turns reachable.fresh)

text \<open>
  C9. In every session reachable from a fresh one (step \<open>name\<close>, empty data) by turns of
  \<open>process_conversation_step\<close>, against any behaviour of the extractors and the sink, the
  fields are populated in step order: no field is present after an absent one. A turn either
  keeps every field that was set, with its value, or clears all fields and returns the step to
  \<open>name\<close>.
\<close>

theorem fields_in_step_order:
  assumes "reachable s"
  shows "populated_in_order (fields_present (data s))
       \<and> (keeps_fields (data s) (data (snd (process_conversation_step e s m)))
          \<or> (data (snd (process_conversation_step e s m)) = empty_data
             \<and> step (snd (process_conversation_step e s m)) = ''name''))"
  using assms by (simp add: reachable_inv session_inv_in_order session_inv_keeps)

theorem fields_in_step_order_witness:
  "reachable (demo_after 3)
   \<and> populated_in_order (fields_present (data (demo_after 3)))
   \<and> fields_present (data (demo_after 3)) = [True, True, True, False, False, False]
   \<and> keeps_fields (data (demo_after 3)) (data (snd (process_conversation_step demo_env (demo_after 3) ''2'')))
   \<and> reachable (demo_after 6)
   \<and> data (snd (process_conversation_step demo_env (demo_after 6) ''cancel'')) = empty_data
   \<and> step (snd (process_conversation_step demo_env (demo_after 6) ''cancel'')) = ''name''"
proof -
  have r3: "reachable (demo_after 3)" and r6: "reachable (demo_after 6)"
    by (rule reachable_demo_after)+
  have f: "fields_present (data (demo_after 3)) = [True, True, True, False, False, False]"
    by code_simp
  have n3: "step (snd (process_conversation_step demo_env (demo_after 3) ''2'')) \<noteq> ''name''"
    by code_simp
  have k6: "\<not> keeps_fields (data (demo_after 6))
              (data (snd (process_conversation_step demo_env (demo_after 6) ''cancel'')))"
    by code_simp
  from fields_in_step_order[OF r3, of demo_env "''2''"] n3
  have 3: "populated_in_order (fields_present (data (demo_after 3)))
           \<and> keeps_fields (data (demo_after 3))
                (data (snd (process_conversation_step demo_env (demo_after 3) ''2'')))"
    by blast
  from fields_in_step_order[OF r6, of demo_env "''cancel''"] k6
  have 6: "data (snd (process_conversation_step demo_env (demo_after 6) ''cancel'')) = empty_data
           \<and> step (snd (process_conversation_step demo_env (demo_after 6) ''cancel'')) = ''name''"
    by blast
  from r3 r6 f 3 6 show ?thesis by blast
qed

subsection \<open>The payment step\<close>

lemma best_method_invariant:
  "best_so_far ratio p seen acc \<Longrightarrow>
   best_so_far ratio p (seen \<union> set ms) (best_method ratio p ms acc)"
proof (induction ms arbitrary: seen acc)
  case Nil
  then show ?case by simp
next
  case (Cons cand rest)
  obtain bm bs where acc: "acc = (bm, bs)" by (cases acc)
  let ?score = "ratio p cand"
  have "best_so_far ratio p (insert cand seen)
          (if ?score > bs \<and> ?score > 60 then (Some cand, ?score) else (bm, bs))"
    using Cons.prems unfolding best_so_far_def acc
    by (auto simp: not_less intro: order_trans less_imp_le dest: not_less [THEN iffD1])
  then have "best_so_far ratio p (insert cand seen \<union> set rest)
          (best_method ratio p rest
             (if ?score > bs \<and> ?score > 60 then (Some cand, ?score) else (bm, bs)))"
    by (rule Cons.IH)
  then show ?case by (auto simp: acc Let_def split: if_splits)
qed

lemma best_method_valid:
  "best_so_far ratio p (set valid_methods) (best_method ratio p valid_methods (None, 0))"
  using best_method_invariant[of ratio p "{}" "(None, 0)" valid_methods]
  by (simp add: best_so_far_def)

lemma payment_value_cases:
  "(lower (strip m) \<in> set [''skip'', ''later'', ''none''] \<longrightarrow>
      payment_value ratio to_title m = ''Not specified'')
   \<and> (lower (strip m) \<notin> set [''skip'', ''later'', ''none'']
       \<and> (\<exists>x\<in>set valid_methods. ratio (lower (strip m)) x > 60) \<longrightarrow>
      (\<exists>best\<in>set valid_methods. payment_value ratio to_title m = to_title best
          \<and> ratio (lower (strip m)) best > 60
          \<and> (\<forall>x\<in>set valid_methods. ratio (lower (strip m)) x \<le> ratio (lower (strip m)) best)))
   \<and> (lower (strip m) \<notin> set [''skip'', ''later'', ''none'']
       \<and> (\<forall>x\<in>set valid_methods. ratio (lower (strip m)) x \<le> 60) \<longrightarrow>
      payment_value ratio to_title m = to_title (lower (strip m)))"
proof -
  let ?p = "lower (strip m)"
  note inv = best_method_valid[of ratio ?p, unfolded best_so_far_def]
  have ne: "\<And>b. b \<in> set valid_methods \<Longrightarrow> b \<noteq> []"
    by (auto simp: valid_methods_def)
  show ?thesis
  proof (intro conjI impI)
    assume "?p \<in> set [''skip'', ''later'', ''none'']"
    then show "payment_value ratio to_title m = ''Not specified''"
      by (simp add: payment_value_def Let_def)
  next
    assume a: "?p \<notin> set [''skip'', ''later'', ''none'']
       \<and> (\<exists>x\<in>set valid_methods. ratio ?p x > 60)"
    with inv obtain b where b: "fst (best_method ratio ?p valid_methods (None, 0)) = Some b"
        "b \<in> set valid_methods" "ratio ?p b > 60"
        "\<forall>x\<in>set valid_methods. ratio ?p x \<le> ratio ?p b"
      by (auto simp: not_le)
    from a b(1) ne[OF b(2)] have "payment_value ratio to_title m = to_title b"
      by (simp add: payment_value_def Let_def)
    with b show "\<exists>best\<in>set valid_methods. payment_value ratio to_title m = to_title best
          \<and> ratio ?p best > 60 \<and> (\<forall>x\<in>set valid_methods. ratio ?p x \<le> ratio ?p best)"
      by blast
  next
    assume a: "?p \<notin> set [''skip'', ''later'', ''none'']
       \<and> (\<forall>x\<in>set valid_methods. ratio ?p x \<le> 60)"
    with inv have "fst (best_method ratio ?p valid_methods (None, 0)) = None"
      by (auto simp: not_le)
    with a show "payment_value ratio to_title m = to_title ?p"
      by (simp add: payment_value_def Let_def)
  qed
qed

lemma summary_ok:
  "name d \<noteq> None \<Longrightarrow> checkin_date d \<noteq> None \<Longrightarrow> checkout_date d \<noteq> None \<Longrightarrow> guests d \<noteq> None
   \<Longrightarrow> \<exists>text. summary d = Inr text"
  by (auto simp: summary_def)

lemma payment_reply:
  assumes "session_inv s" "step s = ''payment''"
  shows "\<exists>text. fst (process_conversation_step e s m) = Inr (say text)"
proof -
  from assms have p: "name (data s) \<noteq> None" "checkin_date (data s) \<noteq> None"
      "checkout_date (data s) \<noteq> None" "guests (data s) \<noteq> None"
    by (simp_all add: session_inv_def fields_at_step_def fields_present_def)
  let ?d = "(data s)\<lparr>payment_method := Some (payment_value (fuzz_ratio e) (str_title e) m)\<rparr>"
  from p obtain body where "summary ?d = Inr body"
    using summary_ok[of ?d] by auto
  with assms(2) have "fst (process_conversation_step e s m) = Inr (say body)"
    by (simp add: process_conversation_step_def Let_def)
  then show ?thesis by blast
qed

lemma title_valid_methods:
  "map title valid_methods
     = [Some ''Credit Card'', Some ''Debit Card'', Some ''Cash'', Some ''Paypal'']"
  by code_simp

lemma title_scenarios:
  "title ''bitcoin'' = Some ''Bitcoin''"
  "title [CHR 0xDF, CHR ''e'', CHR ''t'', CHR ''a''] = Some ''Sseta''"
  "title ''it's o'neil 3rd'' = Some ''It'S O'Neil 3Rd''"
  "title [CHR 0xB5] = None"
  by code_simp+

text \<open>
  C7. The payment step is total and always advances to \<open>confirm\<close>, storing a value in every
  case: "Not specified" when the lowercased, trimmed input is "skip", "later" or "none";
  otherwise the title-cased canonical method whose score is highest among those above 60, if
  one exists; otherwise the title-cased input. Title case is what \<open>str.title\<close> returns: for
  a canonical method one of "Credit Card", "Debit Card", "Cash", "Paypal", and for an input
  whatever \<^const>\<open>title\<close> gives it. In a reachable session the reply is the booking summary.
  With the Indel score, "crdit card" stores "Credit Card" and "bitcoin" stores "Bitcoin".
\<close>

theorem payment_step_total:
  assumes "step s = ''payment''"
  shows "step (snd (process_conversation_step e s m)) = ''confirm''
   \<and> payment_method (data (snd (process_conversation_step e s m))) \<noteq> None
   \<and> (lower (strip m) \<in> set [''skip'', ''later'', ''none''] \<longrightarrow>
        payment_method (data (snd (process_conversation_step e s m))) = Some ''Not specified'')
   \<and> (lower (strip m) \<notin> set [''skip'', ''later'', ''none'']
       \<and> (\<exists>x\<in>set [''credit card'', ''debit card'', ''cash'', ''paypal''].
              fuzz_ratio e (lower (strip m)) x > 60) \<longrightarrow>
        (\<exists>best\<in>set [''credit card'', ''debit card'', ''cash'', ''paypal''].
            payment_method (data (snd (process_conversation_step e s m)))
              = Some (str_title e best)
            \<and> fuzz_ratio e (lower (strip m)) best > 60
            \<and> (\<forall>x\<in>set [''credit card'', ''debit card'', ''cash'', ''paypal''].
                  fuzz_ratio e (lower (strip m)) x \<le> fuzz_ratio e (lower (strip m)) best)))
   \<and> (lower (strip m) \<notin> set [''skip'', ''later'', ''none'']
       \<and> (\<forall>x\<in>set [''credit card'', ''debit card'', ''cash'', ''paypal''].
              fuzz_ratio e (lower (strip m)) x \<le> 60) \<longrightarrow>
        payment_method (data (snd (process_conversation_step e s m)))
          = Some (str_title e (lower (strip m))))
   \<and> (is_str_title (str_title e) \<longrightarrow>
        (lower (strip m) \<notin> set [''skip'', ''later'', ''none'']
         \<and> (\<exists>x\<in>set [''credit card'', ''debit card'', ''cash'', ''paypal''].
                fuzz_ratio e (lower (strip m)) x > 60) \<longrightarrow>
           payment_method (data (snd (process_conversation_step e s m)))
             \<in> set [Some ''Credit Card'', Some ''Debit Card'', Some ''Cash'', Some ''Paypal''])
        \<and> (lower (strip m) \<notin> set [''skip'', ''later'', ''none'']
           \<and> (\<forall>x\<in>set [''credit card'', ''debit card'', ''cash'', ''paypal''].
                  fuzz_ratio e (lower (strip m)) x \<le> 60)
           \<and> title (lower (strip m)) = Some t \<longrightarrow>
           payment_method (data (snd (process_conversation_step e s m))) = Some t))
   \<and> (reachable s \<longrightarrow> (\<exists>text. fst (process_conversation_step e s m) = Inr (say text)))"
proof -
  have 1: "step (snd (process_conversation_step e s m)) = ''confirm''"
    and 2: "payment_method (data (snd (process_conversation_step e s m)))
       = Some (payment_value (fuzz_ratio e) (str_title e) m)"
    using assms by (simp_all add: step_payment)
  have 3: "reachable s \<longrightarrow> (\<exists>text. fst (process_conversation_step e s m) = Inr (say text))"
    using assms by (auto dest: reachable_inv intro: payment_reply)
  note 4 = title_valid_methods[unfolded valid_methods_def]
  note c = payment_value_cases[of m "fuzz_ratio e" "str_title e", unfolded valid_methods_def]
  from c have skip: "lower (strip m) \<in> set [''skip'', ''later'', ''none''] \<longrightarrow>
        payment_value (fuzz_ratio e) (str_title e) m = ''Not specified''"
    by blast
  from c have best: "lower (strip m) \<notin> set [''skip'', ''later'', ''none'']
       \<and> (\<exists>x\<in>set [''credit card'', ''debit card'', ''cash'', ''paypal''].
              fuzz_ratio e (lower (strip m)) x > 60) \<longrightarrow>
        (\<exists>best\<in>set [''credit card'', ''debit card'', ''cash'', ''paypal''].
            payment_value (fuzz_ratio e) (str_title e) m = str_title e best
            \<and> fuzz_ratio e (lower (strip m)) best > 60
            \<and> (\<forall>x\<in>set [''credit card'', ''debit card'', ''cash'', ''paypal''].
                  fuzz_ratio e (lower (strip m)) x \<le> fuzz_ratio e (lower (strip m)) best))"
    by blast
  from c have echo: "lower (strip m) \<notin> set [''skip'', ''later'', ''none'']
       \<and> (\<forall>x\<in>set [''credit card'', ''debit card'', ''cash'', ''paypal''].
              fuzz_ratio e (lower (strip m)) x \<le> 60) \<longrightarrow>
        payment_value (fuzz_ratio e) (str_title e) m = str_title e (lower (strip m))"
    by blast
  have stored: "payment_method (data (snd (process_conversation_step e s m))) \<noteq> None"
    unfolding 2 by simp
  from skip have skip': "lower (strip m) \<in> set [''skip'', ''later'', ''none''] \<longrightarrow>
        payment_method (data (snd (process_conversation_step e s m))) = Some ''Not specified''"
    unfolding 2 by simp
  from best have best': "lower (strip m) \<notin> set [''skip'', ''later'', ''none'']
       \<and> (\<exists>x\<in>set [''credit card'', ''debit card'', ''cash'', ''paypal''].
              fuzz_ratio e (lower (strip m)) x > 60) \<longrightarrow>
        (\<exists>best\<in>set [''credit card'', ''debit card'', ''cash'', ''paypal''].
            payment_method (data (snd (process_conversation_step e s m)))
              = Some (str_title e best)
            \<and> fuzz_ratio e (lower (strip m)) best > 60
            \<and> (\<forall>x\<in>set [''credit card'', ''debit card'', ''cash'', ''paypal''].
                  fuzz_ratio e (lower (strip m)) x \<le> fuzz_ratio e (lower (strip m)) best))"
    unfolding 2 option.inject .
  from echo have echo': "lower (strip m) \<notin> set [''skip'', ''later'', ''none'']
       \<and> (\<forall>x\<in>set [''credit card'', ''debit card'', ''cash'', ''paypal''].
              fuzz_ratio e (lower (strip m)) x \<le> 60) \<longrightarrow>
        payment_method (data (snd (process_conversation_step e s m)))
          = Some (str_title e (lower (strip m)))"
    unfolding 2 option.inject .
  have canon: "payment_method (data (snd (process_conversation_step e s m)))
             \<in> set [Some ''Credit Card'', Some ''Debit Card'', Some ''Cash'', Some ''Paypal'']"
    if agree: "is_str_title (str_title e)"
      and a: "lower (strip m) \<notin> set [''skip'', ''later'', ''none'']
         \<and> (\<exists>x\<in>set [''credit card'', ''debit card'', ''cash'', ''paypal''].
                fuzz_ratio e (lower (strip m)) x > 60)"
  proof -
    from 4 have tt: "title ''credit card'' = Some ''Credit Card''"
      "title ''debit card'' = Some ''Debit Card''" "title ''cash'' = Some ''Cash''"
      "title ''paypal'' = Some ''Paypal''"
      by simp_all
    from agree tt have "str_title e ''credit card'' = ''Credit Card''"
      "str_title e ''debit card'' = ''Debit Card''" "str_title e ''cash'' = ''Cash''"
      "str_title e ''paypal'' = ''Paypal''"
      unfolding is_str_title_def by blast+
    moreover from best' a obtain b where "b \<in> set [''credit card'', ''debit card'', ''cash'', ''paypal'']"
      "payment_method (data (snd (process_conversation_step e s m))) = Some (str_title e b)"
      by blast
    ultimately show ?thesis by auto
  qed
  have named: "payment_method (data (snd (process_conversation_step e s m))) = Some t"
    if agree: "is_str_title (str_title e)"
      and a: "lower (strip m) \<notin> set [''skip'', ''later'', ''none'']
           \<and> (\<forall>x\<in>set [''credit card'', ''debit card'', ''cash'', ''paypal''].
                  fuzz_ratio e (lower (strip m)) x \<le> 60)
           \<and> title (lower (strip m)) = Some t"
  proof -
    from agree a have "str_title e (lower (strip m)) = t"
      unfolding is_str_title_def by blast
    with echo' a show ?thesis by blast
  qed
  from canon named have 5: "is_str_title (str_title e) \<longrightarrow>
        (lower (strip m) \<notin> set [''skip'', ''later'', ''none'']
         \<and> (\<exists>x\<in>set [''credit card'', ''debit card'', ''cash'', ''paypal''].
                fuzz_ratio e (lower (strip m)) x > 60) \<longrightarrow>
           payment_method (data (snd (process_conversation_step e s m)))
             \<in> set [Some ''Credit Card'', Some ''Debit Card'', Some ''Cash'', Some ''Paypal''])
        \<and> (lower (strip m) \<notin> set [''skip'', ''later'', ''none'']
           \<and> (\<forall>x\<in>set [''credit card'', ''debit card'', ''cash'', ''paypal''].
                  fuzz_ratio e (lower (strip m)) x \<le> 60)
           \<and> title (lower (strip m)) = Some t \<longrightarrow>
           payment_method (data (snd (process_conversation_step e s m))) = Some t)"
    by blast
  from 1 stored skip' best' echo' 5 3 show ?thesis
    by (intro conjI)
qed

theorem payment_step_total_witness:
  "step (demo_after 5) = ''payment'' \<and> reachable (demo_after 5)
   \<and> is_str_title (str_title demo_env)
   \<and> step (snd (process_conversation_step demo_env (demo_after 5) ''crdit card'')) = ''confirm''
   \<and> payment_method (data (snd (process_conversation_step demo_env (demo_after 5) ''crdit card'')))
       = Some ''Credit Card''
   \<and> payment_method (data (snd (process_conversation_step demo_env (demo_after 5) ''bitcoin'')))
       = Some ''Bitcoin''
   \<and> payment_method (data (snd (process_conversation_step demo_env (demo_after 5)
          [CHR 0xDF, CHR ''e'', CHR ''t'', CHR ''a''])))
       = Some ''Sseta''
   \<and> payment_method (data (snd (process_conversation_step demo_env (demo_after 5) '' Skip '')))
       = Some ''Not specified''
   \<and> (\<exists>text. fst (process_conversation_step demo_env (demo_after 5) ''crdit card'') = Inr (say text))"
proof -
  have h: "step (demo_after 5) = ''payment''" by code_simp
  have r: "reachable (demo_after 5)" by (rule reachable_demo_after)
  have ag: "is_str_title (str_title demo_env)"
    by (simp add: is_str_title_def demo_env_def)
  note t = payment_step_total[OF h, of demo_env]
  have p1: "lower (strip ''crdit card'') = ''crdit card''" by code_simp
  have n1: "''crdit card'' \<notin> set [''skip'', ''later'', ''none'']" by simp
  have s1: "fuzz_ratio demo_env ''crdit card'' ''credit card'' = 2000 / 21"
    "fuzz_ratio demo_env ''crdit card'' ''debit card'' = 80"
    "fuzz_ratio demo_env ''crdit card'' ''cash'' = 200 / 7"
    "fuzz_ratio demo_env ''crdit card'' ''paypal'' = 25 / 2"
    by code_simp+
  have t1: "str_title demo_env ''credit card'' = ''Credit Card''" by code_simp
  from t[of "''crdit card''", unfolded p1] n1 s1 t1
  have 1: "payment_method (data (snd (process_conversation_step demo_env (demo_after 5) ''crdit card'')))
       = Some ''Credit Card''"
    by auto
  from t[of "''crdit card''"] r
  have c1: "step (snd (process_conversation_step demo_env (demo_after 5) ''crdit card'')) = ''confirm''
    \<and> (\<exists>text. fst (process_conversation_step demo_env (demo_after 5) ''crdit card'') = Inr (say text))"
    by blast
  have p2: "lower (strip ''bitcoin'') = ''bitcoin''" by code_simp
  have n2: "''bitcoin'' \<notin> set [''skip'', ''later'', ''none'']" by simp
  have s2: "fuzz_ratio demo_env ''bitcoin'' ''credit card'' = 100 / 3"
    "fuzz_ratio demo_env ''bitcoin'' ''debit card'' = 800 / 17"
    "fuzz_ratio demo_env ''bitcoin'' ''cash'' = 200 / 11"
    "fuzz_ratio demo_env ''bitcoin'' ''paypal'' = 0"
    by code_simp+
  have t2: "title ''bitcoin'' = Some ''Bitcoin''" by code_simp
  from t[of "''bitcoin''" "''Bitcoin''", unfolded p2] ag n2 s2 t2
  have 2: "payment_method (data (snd (process_conversation_step demo_env (demo_after 5) ''bitcoin'')))
       = Some ''Bitcoin''"
    by auto
  let ?b = "[CHR 0xDF, CHR ''e'', CHR ''t'', CHR ''a'']"
  have p3: "lower (strip ?b) = ?b" by code_simp
  have n3: "?b \<notin> set [''skip'', ''later'', ''none'']" by simp
  have s3: "fuzz_ratio demo_env ?b ''credit card'' \<le> 60"
    "fuzz_ratio demo_env ?b ''debit card'' \<le> 60"
    "fuzz_ratio demo_env ?b ''cash'' \<le> 60"
    "fuzz_ratio demo_env ?b ''paypal'' \<le> 60"
    by code_simp+
  have t3: "title ?b = Some ''Sseta''" by code_simp
  from t[of ?b "''Sseta''", unfolded p3] ag n3 s3 t3
  have 3: "payment_method (data (snd (process_conversation_step demo_env (demo_after 5) ?b)))
       = Some ''Sseta''"
    by auto
  have v4: "lower (strip '' Skip '') \<in> set [''skip'', ''later'', ''none'']" by code_simp
  from t[of "'' Skip ''"] v4
  have 4: "payment_method (data (snd (process_conversation_step demo_env (demo_after 5) '' Skip '')))
       = Some ''Not specified''"
    by blast
  from h r ag 1 c1 2 3 4 show ?thesis by blast
qed

end
